theory Spec2Isabelle
  imports Main "HOL-Library.Multiset"
begin

section \<open>Outcomes of Go calls\<close>

text \<open>
  A Go call either returns or panics. The panics that the code of \<^verbatim>\<open>pkg/repo/index.go\<close>
  can raise are the dereference of a nil pointer (a nil \<^verbatim>\<open>*ChartVersion\<close>, a nil embedded
  \<^verbatim>\<open>*chart.Metadata\<close>, a nil \<^verbatim>\<open>*semver.Constraints\<close>), an index out of range and
  the assignment to an entry of a nil map.
\<close>

datatype panic = NilDereference | IndexOutOfRange | NilMapWrite

datatype 'a outcome = Panic panic | Returns 'a

text \<open>
  The error values of the package. \<^verbatim>\<open>ImproperConstraint\<close> stands for the error that
  \<^verbatim>\<open>semver.NewConstraint\<close> returns, \<^verbatim>\<open>NoVersionFound name version\<close> for
  \<^verbatim>\<open>errors.Errorf("no chart version found for %s-%s", name, version)\<close>,
  \<^verbatim>\<open>ValidationError msg\<close> for a \<^verbatim>\<open>chart.ValidationError\<close> whose \<^verbatim>\<open>Error()\<close> text is
  \<^verbatim>\<open>msg\<close>, \<^verbatim>\<open>Wrapped e path\<close> for \<^verbatim>\<open>errors.Wrapf(e, "error loading %s", path)\<close>.
\<close>

datatype error =
    ErrNoAPIVersion
  | ErrNoChartVersion
  | ErrNoChartName
  | ErrEmptyIndexYaml
  | ImproperConstraint string
  | NoVersionFound string string
  | ValidationError string
  | UnmarshalError string
  | ReadFileError string
  | Wrapped error string

section \<open>The data model of \<^verbatim>\<open>pkg/repo/index.go\<close>\<close>

text \<open>
  Modelled from the spec: \<^verbatim>\<open>chart.Metadata\<close> is declared in \<^verbatim>\<open>pkg/chart\<close>, outside the
  sources at hand. The index code reads and writes three of its fields: the chart name,
  the version string and the API version.
\<close>

record Metadata =
  Name :: string
  Version :: string
  APIVersion :: string

text \<open>
  \<^verbatim>\<open>ChartVersion\<close> embeds a \<^verbatim>\<open>*chart.Metadata\<close>, which may be nil. Times are seconds.
\<close>

record ChartVersion =
  Metadata :: "Metadata option"
  URLs :: "string list"
  Created :: int
  Removed :: bool
  Digest :: string
  ChecksumDeprecated :: string
  EngineDeprecated :: string
  TillerVersionDeprecated :: string
  URLDeprecated :: string

text \<open>\<^verbatim>\<open>type ChartVersions []*ChartVersion\<close>: a slice of pointers, \<open>None\<close> the nil pointer.\<close>

type_synonym ChartVersions = "ChartVersion option list"

text \<open>
  \<^verbatim>\<open>IndexFile\<close>. \<open>Entries = None\<close> is the nil map, which reads as the empty map
  and panics when written.
\<close>

record IndexFile =
  ServerInfo :: "string \<rightharpoonup> string"
  IndexAPIVersion :: string
  Generated :: int
  Entries :: "(string \<rightharpoonup> ChartVersions) option"
  PublicKeys :: "string list"
  Annotations :: "string \<rightharpoonup> string"

definition APIVersionV1 :: string where
  "APIVersionV1 = ''v1''"

section \<open>The semantic-version library\<close>

text \<open>
  \<^verbatim>\<open>github.com/Masterminds/semver/v3\<close> is a third-party library. The code uses four of
  its operations, which the model takes as a parameter: \<^verbatim>\<open>NewVersion\<close> and
  \<^verbatim>\<open>NewConstraint\<close> (\<open>None\<close> when they return an error), \<^verbatim>\<open>Version.LessThan\<close> and
  \<^verbatim>\<open>Constraints.Check\<close>.
\<close>

record ('v, 'c) semver =
  NewVersion :: "string \<Rightarrow> 'v option"
  NewConstraint :: "string \<Rightarrow> 'c option"
  LessThan :: "'v \<Rightarrow> 'v \<Rightarrow> bool"
  Check :: "'c \<Rightarrow> 'v \<Rightarrow> bool"

section \<open>\<^verbatim>\<open>ChartVersions.Get\<close>\<close>

text \<open>\<^verbatim>\<open>ver.Version\<close> on a \<^verbatim>\<open>*ChartVersion\<close>: the field is promoted from the embedded pointer.\<close>

definition Version_of :: "ChartVersion option \<Rightarrow> string outcome" where
  "Version_of ver =
     (case ver of
        None \<Rightarrow> Panic NilDereference
      | Some cv \<Rightarrow>
          (case Metadata cv of
             None \<Rightarrow> Panic NilDereference
           | Some md \<Rightarrow> Returns (Version md)))"

text \<open>The first loop of \<^verbatim>\<open>Get\<close>: \<^verbatim>\<open>if version == ver.Version { return ver, nil }\<close>.\<close>

fun exact_match :: "string \<Rightarrow> ChartVersions \<Rightarrow> ChartVersion option outcome" where
  "exact_match version [] = Returns None"
| "exact_match version (ver # c) =
     (case Version_of ver of
        Panic p \<Rightarrow> Panic p
      | Returns v \<Rightarrow> if version = v then Returns ver else exact_match version c)"

text \<open>
  The second loop: entries whose version does not parse are skipped, the first one that
  the constraint accepts is returned. \<^verbatim>\<open>constraint.Check\<close> dereferences the constraint.
\<close>

fun constraint_match ::
  "('v, 'c) semver \<Rightarrow> 'c option \<Rightarrow> ChartVersions \<Rightarrow> ChartVersion option outcome" where
  "constraint_match sv constraint [] = Returns None"
| "constraint_match sv constraint (ver # c) =
     (case Version_of ver of
        Panic p \<Rightarrow> Panic p
      | Returns v \<Rightarrow>
          (case NewVersion sv v of
             None \<Rightarrow> constraint_match sv constraint c
           | Some test \<Rightarrow>
               (case constraint of
                  None \<Rightarrow> Panic NilDereference
                | Some k \<Rightarrow>
                    if Check sv k test then Returns ver
                    else constraint_match sv constraint c)))"

definition ChartVersions_Get ::
  "('v, 'c) semver \<Rightarrow> ChartVersions \<Rightarrow> string \<Rightarrow> string \<Rightarrow> (error + ChartVersion) outcome" where
  "ChartVersions_Get sv c name version =
     (if version \<noteq> [] \<and> NewConstraint sv version = None
      then Returns (Inl (ImproperConstraint version))
      else
        let constraint = (if version = [] then NewConstraint sv ''*''
                          else NewConstraint sv version)
        in case (if length version \<noteq> 0 then exact_match version c else Returns None) of
             Panic p \<Rightarrow> Panic p
           | Returns (Some ver) \<Rightarrow> Returns (Inr ver)
           | Returns None \<Rightarrow>
               (case constraint_match sv constraint c of
                  Panic p \<Rightarrow> Panic p
                | Returns (Some ver) \<Rightarrow> Returns (Inr ver)
                | Returns None \<Rightarrow> Returns (Inl (NoVersionFound name version))))"

section \<open>\<^verbatim>\<open>IndexFile.GetVersions\<close>, \<^verbatim>\<open>IndexFile.Get\<close>, \<^verbatim>\<open>IndexFile.Has\<close>\<close>

text \<open>\<^verbatim>\<open>i.Entries[name]\<close> with its \<^verbatim>\<open>ok\<close> flag; a nil map has no key.\<close>

definition Entries_lookup :: "IndexFile \<Rightarrow> string \<Rightarrow> ChartVersions option" where
  "Entries_lookup i name = (case Entries i of None \<Rightarrow> None | Some es \<Rightarrow> es name)"

definition GetVersions :: "IndexFile \<Rightarrow> string \<Rightarrow> error + ChartVersions" where
  "GetVersions i name =
     (case Entries_lookup i name of
        None \<Rightarrow> Inl ErrNoChartName
      | Some versions \<Rightarrow>
          if length versions = 0 then Inl ErrNoChartVersion else Inr versions)"

definition IndexFile_Get ::
  "('v, 'c) semver \<Rightarrow> IndexFile \<Rightarrow> string \<Rightarrow> string \<Rightarrow> (error + ChartVersion) outcome" where
  "IndexFile_Get sv i name version =
     (case GetVersions i name of
        Inl err \<Rightarrow> Returns (Inl err)
      | Inr vs \<Rightarrow> ChartVersions_Get sv vs name version)"

definition Has :: "('v, 'c) semver \<Rightarrow> IndexFile \<Rightarrow> string \<Rightarrow> string \<Rightarrow> bool outcome" where
  "Has sv i name version =
     (case IndexFile_Get sv i name version of
        Panic p \<Rightarrow> Panic p
      | Returns (Inl err) \<Rightarrow> Returns False
      | Returns (Inr ver) \<Rightarrow> Returns True)"

section \<open>Well-formed entries, and entries that differ in the tombstone flag only\<close>

text \<open>An entry that can be read: a pointer that is not nil, to a record with metadata.\<close>

definition has_metadata :: "ChartVersion option \<Rightarrow> bool" where
  "has_metadata ver = (case ver of None \<Rightarrow> False | Some cv \<Rightarrow> Metadata cv \<noteq> None)"

text \<open>Two entries that are both nil, or equal in every field but \<^verbatim>\<open>Removed\<close>.\<close>

definition same_but_Removed :: "ChartVersion option \<Rightarrow> ChartVersion option \<Rightarrow> bool" where
  "same_but_Removed ver ver' =
     (case ver of
        None \<Rightarrow> ver' = None
      | Some a \<Rightarrow> (case ver' of None \<Rightarrow> False | Some b \<Rightarrow> a\<lparr>Removed := Removed b\<rparr> = b))"

text \<open>Two results of \<^verbatim>\<open>Get\<close>: the same panic, the same error, or entries so related.\<close>

definition same_result_but_Removed ::
  "(error + ChartVersion) outcome \<Rightarrow> (error + ChartVersion) outcome \<Rightarrow> bool" where
  "same_result_but_Removed r r' =
     (case r of
        Panic p \<Rightarrow> r' = Panic p
      | Returns (Inl err) \<Rightarrow> r' = Returns (Inl err)
      | Returns (Inr a) \<Rightarrow>
          (case r' of Returns (Inr b) \<Rightarrow> a\<lparr>Removed := Removed b\<rparr> = b | _ \<Rightarrow> False))"

section \<open>A fragment of the semantic-version library, for concrete inputs\<close>

text \<open>
  The concrete inputs below need an instance of the library. This one reads the version
  strings \<^verbatim>\<open>MAJOR.MINOR.PATCH\<close> of three decimal numbers and rejects every other string, as
  the library rejects a string without a digit such as \<^verbatim>\<open>latest\<close>; its constraints are
  \<^verbatim>\<open>*\<close> and a plain version, which the library reads as equality; versions compare
  by major, minor and patch number. It has no pre-release versions.
\<close>

definition digit_of :: "char \<Rightarrow> nat option" where
  "digit_of =
     map_of [(CHR ''0'', 0), (CHR ''1'', 1), (CHR ''2'', 2), (CHR ''3'', 3), (CHR ''4'', 4),
       (CHR ''5'', 5), (CHR ''6'', 6), (CHR ''7'', 7), (CHR ''8'', 8), (CHR ''9'', 9)]"

fun decimal :: "nat \<Rightarrow> string \<Rightarrow> nat option" where
  "decimal acc [] = Some acc"
| "decimal acc (ch # s) =
     (case digit_of ch of None \<Rightarrow> None | Some d \<Rightarrow> decimal (10 * acc + d) s)"

definition number :: "string \<Rightarrow> nat option" where
  "number s = (if s = [] then None else decimal 0 s)"

fun fields :: "string \<Rightarrow> string \<Rightarrow> string list" where
  "fields acc [] = [rev acc]"
| "fields acc (ch # s) =
     (if ch = CHR ''.'' then rev acc # fields [] s else fields (ch # acc) s)"

datatype fragment_constraint = AnyRelease | Exactly "nat \<times> nat \<times> nat"

definition fragment_NewVersion :: "string \<Rightarrow> (nat \<times> nat \<times> nat) option" where
  "fragment_NewVersion s =
     (case map number (fields [] s) of
        [Some major, Some minor, Some patch] \<Rightarrow> Some (major, minor, patch)
      | _ \<Rightarrow> None)"

definition fragment_NewConstraint :: "string \<Rightarrow> fragment_constraint option" where
  "fragment_NewConstraint s =
     (if s = ''*'' then Some AnyRelease else map_option Exactly (fragment_NewVersion s))"

fun fragment_LessThan :: "nat \<times> nat \<times> nat \<Rightarrow> nat \<times> nat \<times> nat \<Rightarrow> bool" where
  "fragment_LessThan (a, b, c) (a', b', c') =
     (a < a' \<or> (a = a' \<and> (b < b' \<or> (b = b' \<and> c < c'))))"

fun fragment_Check :: "fragment_constraint \<Rightarrow> nat \<times> nat \<times> nat \<Rightarrow> bool" where
  "fragment_Check AnyRelease v = True"
| "fragment_Check (Exactly w) v = (v = w)"

definition semver_fragment :: "(nat \<times> nat \<times> nat, fragment_constraint) semver" where
  "semver_fragment =
     \<lparr>NewVersion = fragment_NewVersion, NewConstraint = fragment_NewConstraint,
      LessThan = fragment_LessThan, Check = fragment_Check\<rparr>"

text \<open>An entry with the given chart name and version string, every other field zero.\<close>

definition entry_of :: "string \<Rightarrow> string \<Rightarrow> ChartVersion" where
  "entry_of name version =
     \<lparr>Metadata = Some \<lparr>Name = name, Version = version, APIVersion = APIVersionV1\<rparr>,
      URLs = [], Created = 0, Removed = False, Digest = [], ChecksumDeprecated = [],
      EngineDeprecated = [], TillerVersionDeprecated = [], URLDeprecated = []\<rparr>"

section \<open>\<^verbatim>\<open>ChartVersions.Less\<close> and the sorting of the standard library\<close>

text \<open>
  \<^verbatim>\<open>Less(a, b)\<close>: an entry whose version fails to parse is less than anything, itself and
  other such entries included. Reading \<^verbatim>\<open>c[a].Version\<close> panics on an index out of range,
  on a nil entry and on an entry with no metadata.
\<close>

definition ChartVersions_Less ::
  "('v, 'c) semver \<Rightarrow> ChartVersions \<Rightarrow> nat \<Rightarrow> nat \<Rightarrow> bool outcome" where
  "ChartVersions_Less sv c a b =
     (if length c \<le> a then Panic IndexOutOfRange
      else case Version_of (c ! a) of
        Panic p \<Rightarrow> Panic p
      | Returns va \<Rightarrow>
          (case NewVersion sv va of
             None \<Rightarrow> Returns True
           | Some i \<Rightarrow>
               (if length c \<le> b then Panic IndexOutOfRange
                else case Version_of (c ! b) of
                  Panic p \<Rightarrow> Panic p
                | Returns vb \<Rightarrow>
                    (case NewVersion sv vb of
                       None \<Rightarrow> Returns False
                     | Some j \<Rightarrow> Returns (LessThan sv i j)))))"

text \<open>\<^verbatim>\<open>Swap(i, j)\<close>: \<^verbatim>\<open>c[i], c[j] = c[j], c[i]\<close>. The sort calls it on indices it has compared.\<close>

definition Swap :: "'a list \<Rightarrow> nat \<Rightarrow> nat \<Rightarrow> 'a list" where
  "Swap c i j = c[i := c ! j, j := c ! i]"

text \<open>\<^verbatim>\<open>sort.Reverse\<close>: \<^verbatim>\<open>Less(i, j)\<close> of the wrapper is \<^verbatim>\<open>Less(j, i)\<close> of the wrapped.\<close>

definition Reverse_Less ::
  "('a list \<Rightarrow> nat \<Rightarrow> nat \<Rightarrow> bool outcome) \<Rightarrow> 'a list \<Rightarrow> nat \<Rightarrow> nat \<Rightarrow> bool outcome" where
  "Reverse_Less data_Less c i j = data_Less c j i"

text \<open>
  \<^verbatim>\<open>insertionSort(data, a, b)\<close> of package \<^verbatim>\<open>sort\<close>:
  \<^verbatim>\<open>for i := a + 1; i < b; i++ { for j := i; j > a && data.Less(j, j-1); j-- { data.Swap(j, j-1) } }\<close>.
\<close>

function insertionSort_inner ::
  "('a list \<Rightarrow> nat \<Rightarrow> nat \<Rightarrow> bool outcome) \<Rightarrow> 'a list \<Rightarrow> nat \<Rightarrow> nat \<Rightarrow> 'a list outcome" where
  "insertionSort_inner data_Less data a j =
     (if j > a then
        (case data_Less data j (j - 1) of
           Panic p \<Rightarrow> Panic p
         | Returns swap \<Rightarrow>
             if swap then insertionSort_inner data_Less (Swap data j (j - 1)) a (j - 1)
             else Returns data)
      else Returns data)"
  by pat_completeness auto
termination
  by (relation "measure (\<lambda>(data_Less, data, a, j). j)") auto

function insertionSort_outer ::
  "('a list \<Rightarrow> nat \<Rightarrow> nat \<Rightarrow> bool outcome) \<Rightarrow> 'a list \<Rightarrow> nat \<Rightarrow> nat \<Rightarrow> nat \<Rightarrow> 'a list outcome" where
  "insertionSort_outer data_Less data a i b =
     (if i < b then
        (case insertionSort_inner data_Less data a i of
           Panic p \<Rightarrow> Panic p
         | Returns data' \<Rightarrow> insertionSort_outer data_Less data' a (i + 1) b)
      else Returns data)"
  by pat_completeness auto
termination
  by (relation "measure (\<lambda>(data_Less, data, a, i, b). b - i)") auto

definition insertionSort ::
  "('a list \<Rightarrow> nat \<Rightarrow> nat \<Rightarrow> bool outcome) \<Rightarrow> 'a list \<Rightarrow> nat \<Rightarrow> nat \<Rightarrow> 'a list outcome" where
  "insertionSort data_Less data a b = insertionSort_outer data_Less data a (a + 1) b"

text \<open>
  \<^verbatim>\<open>sort.Sort\<close> returns at once when \<^verbatim>\<open>n <= 1\<close> and calls \<^verbatim>\<open>pdqsort(data, 0, n, limit)\<close>
  otherwise, whose first step is \<^verbatim>\<open>if length <= maxInsertion { insertionSort(data, a, b); return }\<close>
  with \<^verbatim>\<open>maxInsertion = 12\<close>. The pattern-defeating quicksort that sorts a longer slice is a
  parameter of the model, \<open>large\<close>; what is asked of it is \<open>sorts_slice\<close> below.
\<close>

definition maxInsertion :: nat where
  "maxInsertion = 12"

definition sort_Sort ::
  "(('a list \<Rightarrow> nat \<Rightarrow> nat \<Rightarrow> bool outcome) \<Rightarrow> 'a list \<Rightarrow> 'a list outcome) \<Rightarrow>
   ('a list \<Rightarrow> nat \<Rightarrow> nat \<Rightarrow> bool outcome) \<Rightarrow> 'a list \<Rightarrow> 'a list outcome" where
  "sort_Sort large data_Less data =
     (let n = length data
      in if n \<le> 1 then Returns data
         else if n \<le> maxInsertion then insertionSort data_Less data 0 n
         else large data_Less data)"

text \<open>
  Concrete inputs whose lists hold at most 12 entries never reach the quicksort; they pass
  this placeholder for it.
\<close>

definition large_unused ::
  "('a list \<Rightarrow> nat \<Rightarrow> nat \<Rightarrow> bool outcome) \<Rightarrow> 'a list \<Rightarrow> 'a list outcome" where
  "large_unused data_Less data = Returns data"

text \<open>
  What \<^verbatim>\<open>sort.Sort\<close> documents: it \<^emph>\<open>sorts data in ascending order as determined by the Less
  method\<close>, by calls of \<^verbatim>\<open>Less\<close> and \<^verbatim>\<open>Swap\<close>, and \<^emph>\<open>is not guaranteed to be stable\<close>.
  \<open>ascending data_Less ys\<close>: no element is less than an element that stands before it,
  unless that element is less than it as well (\<^verbatim>\<open>Less\<close> of a version list holds both ways
  between two unparseable entries). \<open>sorts_slice large data_Less xs\<close>: the quicksort
  returns on \<open>xs\<close>, with a permutation of \<open>xs\<close> that is ascending.
\<close>

definition ascending :: "('a list \<Rightarrow> nat \<Rightarrow> nat \<Rightarrow> bool outcome) \<Rightarrow> 'a list \<Rightarrow> bool" where
  "ascending data_Less ys =
     list_all
       (\<lambda>j. list_all
              (\<lambda>i. data_Less ys j i = Returns True \<longrightarrow> data_Less ys i j = Returns True)
              [0..<j])
       [0..<length ys]"

definition sorts_slice ::
  "(('a list \<Rightarrow> nat \<Rightarrow> nat \<Rightarrow> bool outcome) \<Rightarrow> 'a list \<Rightarrow> 'a list outcome) \<Rightarrow>
   ('a list \<Rightarrow> nat \<Rightarrow> nat \<Rightarrow> bool outcome) \<Rightarrow> 'a list \<Rightarrow> bool" where
  "sorts_slice large data_Less xs =
     (case large data_Less xs of
        Panic p \<Rightarrow> False
      | Returns ys \<Rightarrow> mset ys = mset xs \<and> ascending data_Less ys)"

text \<open>
  A sort for the concrete inputs with a list of more than 12 entries: it reverses the slice
  and sorts it by insertion. It sorts every slice, and it is not stable.
\<close>

definition large_reversing ::
  "('a list \<Rightarrow> nat \<Rightarrow> nat \<Rightarrow> bool outcome) \<Rightarrow> 'a list \<Rightarrow> 'a list outcome" where
  "large_reversing data_Less data = insertionSort data_Less (rev data) 0 (length data)"

section \<open>\<^verbatim>\<open>IndexFile.SortEntries\<close>\<close>

text \<open>
  \<^verbatim>\<open>for _, versions := range i.Entries { sort.Sort(sort.Reverse(versions)) }\<close>. The order in
  which \<^verbatim>\<open>range\<close> visits the keys of a map is the runtime's choice: the list \<open>ks\<close>. Each
  slice is sorted in place, so the index that the caller holds changes.
\<close>

fun SortEntries_loop ::
  "(ChartVersions \<Rightarrow> ChartVersions outcome) \<Rightarrow> (string \<rightharpoonup> ChartVersions) \<Rightarrow> string list \<Rightarrow>
   (string \<rightharpoonup> ChartVersions) outcome" where
  "SortEntries_loop sort_versions es [] = Returns es"
| "SortEntries_loop sort_versions es (k # ks) =
     (case es k of
        None \<Rightarrow> SortEntries_loop sort_versions es ks
      | Some versions \<Rightarrow>
          (case sort_versions versions of
             Panic p \<Rightarrow> Panic p
           | Returns versions' \<Rightarrow> SortEntries_loop sort_versions (es(k \<mapsto> versions')) ks))"

definition SortEntries ::
  "((ChartVersions \<Rightarrow> nat \<Rightarrow> nat \<Rightarrow> bool outcome) \<Rightarrow> ChartVersions \<Rightarrow> ChartVersions outcome) \<Rightarrow>
   ('v, 'c) semver \<Rightarrow> string list \<Rightarrow> IndexFile \<Rightarrow> IndexFile outcome" where
  "SortEntries large sv ks i =
     (case Entries i of
        None \<Rightarrow> Returns i
      | Some es \<Rightarrow>
          (case SortEntries_loop (sort_Sort large (Reverse_Less (ChartVersions_Less sv))) es ks of
             Panic p \<Rightarrow> Panic p
           | Returns es' \<Rightarrow> Returns (i\<lparr>Entries := Some es'\<rparr>)))"

section \<open>What a sorted version list is\<close>

text \<open>The semantic version of an entry, when the entry can be read and its version parses.\<close>

definition parsed :: "('v, 'c) semver \<Rightarrow> ChartVersion option \<Rightarrow> 'v option" where
  "parsed sv ver = (case Version_of ver of Panic p \<Rightarrow> None | Returns v \<Rightarrow> NewVersion sv v)"

text \<open>
  \<open>in_order sv x y\<close>: \<open>x\<close> may stand before \<open>y\<close> in a sorted list. Two parseable entries
  are in order when the first is not less than the second; an unparseable entry
  is never in order before a parseable one.
\<close>

definition in_order :: "('v, 'c) semver \<Rightarrow> ChartVersion option \<Rightarrow> ChartVersion option \<Rightarrow> bool" where
  "in_order sv x y =
     (case parsed sv y of
        None \<Rightarrow> True
      | Some vy \<Rightarrow> (case parsed sv x of None \<Rightarrow> False | Some vx \<Rightarrow> \<not> LessThan sv vx vy))"

text \<open>\<open>same_rank sv v x\<close>: the entry \<open>x\<close> parses to a version equal in precedence to \<open>v\<close>.\<close>

definition same_rank :: "('v, 'c) semver \<Rightarrow> 'v \<Rightarrow> ChartVersion option \<Rightarrow> bool" where
  "same_rank sv v x =
     (case parsed sv x of
        None \<Rightarrow> False
      | Some vx \<Rightarrow> \<not> LessThan sv vx v \<and> \<not> LessThan sv v vx)"

text \<open>
  The precedence of versions is a strict weak order: \<^verbatim>\<open>LessThan\<close> is asymmetric, and
  a version that is less than another is less than, or the other is greater than,
  any third.
\<close>

definition strict_weak_order :: "('v \<Rightarrow> 'v \<Rightarrow> bool) \<Rightarrow> bool" where
  "strict_weak_order lt =
     ((\<forall>a b. \<not> (lt a b \<and> lt b a)) \<and> (\<forall>a b c. \<not> (lt a c \<and> \<not> lt a b \<and> \<not> lt b c)))"

text \<open>
  The inner loop of the insertion sort as a function on lists: \<open>insert_back lt x r\<close> moves
  \<open>x\<close> into the sorted part, given back to front as \<open>r\<close>, past every element that
  \<open>x\<close> is less than.
\<close>

fun insert_back :: "('a \<Rightarrow> 'a \<Rightarrow> bool) \<Rightarrow> 'a \<Rightarrow> 'a list \<Rightarrow> 'a list" where
  "insert_back lt x [] = [x]"
| "insert_back lt x (y # r) = (if lt x y then y # insert_back lt x r else x # y # r)"

text \<open>\<^verbatim>\<open>Less(i, j)\<close> of \<^verbatim>\<open>sort.Reverse(versions)\<close> on two entries that can be read.\<close>

definition reverse_less ::
  "('v, 'c) semver \<Rightarrow> ChartVersion option \<Rightarrow> ChartVersion option \<Rightarrow> bool" where
  "reverse_less sv x y =
     (case parsed sv y of
        None \<Rightarrow> True
      | Some vy \<Rightarrow> (case parsed sv x of None \<Rightarrow> False | Some vx \<Rightarrow> LessThan sv vy vx))"

text \<open>An index with the given entries, API version \<^verbatim>\<open>v1\<close>, every other field zero.\<close>

definition index_of :: "(string \<rightharpoonup> ChartVersions) \<Rightarrow> IndexFile" where
  "index_of es =
     \<lparr>ServerInfo = Map.empty, IndexAPIVersion = APIVersionV1, Generated = 0,
      Entries = Some es, PublicKeys = [], Annotations = Map.empty\<rparr>"

text \<open>
  A version list for the concrete inputs: two releases, one of them published twice (the
  second time with another digest), and two entries whose version is no semantic version.
\<close>

definition example_versions :: ChartVersions where
  "example_versions =
     [Some (entry_of ''mychart'' ''1.0.0''), Some (entry_of ''mychart'' ''latest''),
      Some (entry_of ''mychart'' ''2.0.0''), Some (entry_of ''mychart'' ''nightly''),
      Some ((entry_of ''mychart'' ''1.0.0'')\<lparr>Digest := ''b''\<rparr>)]"

definition example_versions_sorted :: ChartVersions where
  "example_versions_sorted =
     [Some (entry_of ''mychart'' ''2.0.0''), Some (entry_of ''mychart'' ''1.0.0''),
      Some ((entry_of ''mychart'' ''1.0.0'')\<lparr>Digest := ''b''\<rparr>),
      Some (entry_of ''mychart'' ''nightly''), Some (entry_of ''mychart'' ''latest'')]"

text \<open>
  A version list of 13 entries: an entry whose version is no semantic version, the release
  \<^verbatim>\<open>1.0.0\<close> published twice, and ten later releases in the order of their publication.
\<close>

definition example_versions_long :: ChartVersions where
  "example_versions_long =
     [Some (entry_of ''mychart'' ''latest''),
      Some (entry_of ''mychart'' ''1.0.0''), Some ((entry_of ''mychart'' ''1.0.0'')\<lparr>Digest := ''b''\<rparr>),
      Some (entry_of ''mychart'' ''1.1.0''), Some (entry_of ''mychart'' ''1.2.0''),
      Some (entry_of ''mychart'' ''1.3.0''), Some (entry_of ''mychart'' ''1.4.0''),
      Some (entry_of ''mychart'' ''1.5.0''), Some (entry_of ''mychart'' ''1.6.0''),
      Some (entry_of ''mychart'' ''1.7.0''), Some (entry_of ''mychart'' ''1.8.0''),
      Some (entry_of ''mychart'' ''1.9.0''), Some (entry_of ''mychart'' ''2.0.0'')]"

section \<open>The data model of the repository registry\<close>

text \<open>
  Modelled from the spec: \<^verbatim>\<open>repo.Entry\<close> is declared in \<^verbatim>\<open>pkg/repo\<close>, outside the sources
  at hand; the registry reads its name and its URL.
\<close>

record Entry =
  Entry_Name :: string
  Entry_URL :: string

text \<open>
  \<^verbatim>\<open>ChartRepositories\<close>: the cache directory, the loaded indices and the entries, both by
  repository name. The two mutexes are left out: the model runs one call at a time.
\<close>

record ChartRepositories =
  indexPath :: string
  indices :: "string \<rightharpoonup> IndexFile"
  repos :: "string \<rightharpoonup> Entry"

section \<open>The collaborators outside the sources at hand\<close>

text \<open>
  The code calls packages that are not part of the sources: the semantic-version
  library, the quicksort of \<^verbatim>\<open>sort.Sort\<close> for long slices, the JSON and YAML decoders, the
  validation of chart metadata (\<^verbatim>\<open>chart.Metadata.Validate\<close> has a pointer receiver and
  may rewrite the metadata: it returns the metadata with the error), the reading of a file,
  and for the repository registry the loader of the repository configuration, the hash \<^verbatim>\<open>key\<close> with its prefix \<^verbatim>\<open>managerKeyPrefix\<close>, the
  comparison of two URLs, the test for an OCI reference, the test that a string parses as
  an absolute URL, and the path of the cached index file of a repository. The model takes
  them as one parameter.
\<close>

record ('v, 'c) externals =
  semver_lib :: "('v, 'c) semver"
  pdqsort_large :: "(ChartVersions \<Rightarrow> nat \<Rightarrow> nat \<Rightarrow> bool outcome) \<Rightarrow> ChartVersions \<Rightarrow> ChartVersions outcome"
  json_Valid :: "string \<Rightarrow> bool"
  json_Unmarshal :: "string \<Rightarrow> IndexFile \<times> error option"
  yaml_UnmarshalStrict :: "string \<Rightarrow> IndexFile \<times> error option"
  Validate :: "Metadata \<Rightarrow> Metadata \<times> error option"
  os_ReadFile :: "string \<Rightarrow> error + string"
  loadRepoConfig :: "string \<Rightarrow> error + Entry option list"
  key :: "string \<Rightarrow> error + string"
  managerKeyPrefix :: string
  urlutil_Equal :: "string \<Rightarrow> string \<Rightarrow> bool"
  registry_IsOCI :: "string \<Rightarrow> bool"
  url_IsAbs :: "string \<Rightarrow> bool"
  cache_index_path :: "string \<Rightarrow> string \<Rightarrow> string"

section \<open>\<^verbatim>\<open>loadIndex\<close> and \<^verbatim>\<open>LoadIndexFile\<close>\<close>

text \<open>The lines that \<^verbatim>\<open>loadIndex\<close> logs: an empty entry, and an entry that fails validation.\<close>

datatype log_line =
    SkipEmptyEntry string string
  | SkipInvalidEntry string string string "error option"

definition jsonOrYamlUnmarshal :: "('v, 'c) externals \<Rightarrow> string \<Rightarrow> IndexFile \<times> error option" where
  "jsonOrYamlUnmarshal ext b =
     (if json_Valid ext b then json_Unmarshal ext b else yaml_UnmarshalStrict ext b)"

text \<open>
  \<^verbatim>\<open>ignoreSkippableChartValidationError\<close>: a \<^verbatim>\<open>chart.ValidationError\<close> whose text starts
  with the duplicate-dependency complaint is dropped, every other error is kept.
\<close>

definition ignoreSkippableChartValidationError :: "error option \<Rightarrow> error option" where
  "ignoreSkippableChartValidationError err =
     (case err of
        Some (ValidationError msg) \<Rightarrow>
          if take (length ''validation: more than one dependency with name or alias'') msg
               = ''validation: more than one dependency with name or alias''
          then None else err
      | _ \<Rightarrow> err)"

text \<open>\<^verbatim>\<open>&chart.Metadata{}\<close> and \<^verbatim>\<open>&IndexFile{}\<close>: every field zero.\<close>

definition empty_Metadata :: Metadata where
  "empty_Metadata = \<lparr>Name = [], Version = [], APIVersion = []\<rparr>"

definition empty_IndexFile :: IndexFile where
  "empty_IndexFile =
     \<lparr>ServerInfo = Map.empty, IndexAPIVersion = [], Generated = 0, Entries = None,
      PublicKeys = [], Annotations = Map.empty\<rparr>"

text \<open>
  One round of the inner loop of \<^verbatim>\<open>loadIndex\<close>, at index \<open>idx\<close>. The state is the array
  that backs the slice (\<^verbatim>\<open>i.Entries[name]\<close> keeps its length whatever happens to the local
  variable \<^verbatim>\<open>cvs\<close>), the length of \<^verbatim>\<open>cvs\<close>, and the log. A nil entry is logged and left
  where it is. \<^verbatim>\<open>cvs = append(cvs[:idx], cvs[idx+1:]...)\<close> moves the elements of \<^verbatim>\<open>cvs\<close>
  after \<open>idx\<close> one place down in the array and shortens \<^verbatim>\<open>cvs\<close> by one; the last
  place of the old \<^verbatim>\<open>cvs\<close> keeps its element.
\<close>

definition cleanup_step ::
  "('v, 'c) externals \<Rightarrow> string \<Rightarrow> string \<Rightarrow> ChartVersions \<times> nat \<times> log_line list \<Rightarrow> nat \<Rightarrow>
   ChartVersions \<times> nat \<times> log_line list" where
  "cleanup_step ext name source st idx =
     (case st of (arr, len, logs) \<Rightarrow>
        (case arr ! idx of
           None \<Rightarrow> (arr, len, logs @ [SkipEmptyEntry name source])
         | Some cv \<Rightarrow>
             let md0 = (case Metadata cv of None \<Rightarrow> empty_Metadata | Some md \<Rightarrow> md);
                 md1 = (if APIVersion md0 = [] then md0\<lparr>APIVersion := APIVersionV1\<rparr> else md0);
                 (md2, err) = Validate ext md1;
                 arr' = arr[idx := Some (cv\<lparr>Metadata := Some md2\<rparr>)]
             in if ignoreSkippableChartValidationError err \<noteq> None
                then (take idx arr' @ drop (idx + 1) (take len arr') @ drop (len - 1) arr',
                      len - 1,
                      logs @ [SkipInvalidEntry name (Version md2) source err])
                else (arr', len, logs)))"

text \<open>\<^verbatim>\<open>for idx := len(cvs) - 1; idx >= 0; idx--\<close>: \<open>n\<close> rounds are left, the next at \<open>n - 1\<close>.\<close>

fun cleanup_loop ::
  "('v, 'c) externals \<Rightarrow> string \<Rightarrow> string \<Rightarrow> ChartVersions \<times> nat \<times> log_line list \<Rightarrow> nat \<Rightarrow>
   ChartVersions \<times> nat \<times> log_line list" where
  "cleanup_loop ext name source st 0 = st"
| "cleanup_loop ext name source st (Suc idx) =
     cleanup_loop ext name source (cleanup_step ext name source st idx) idx"

text \<open>
  \<^verbatim>\<open>for name, cvs := range i.Entries\<close>, the keys visited in the order \<open>ks\<close>. The shortened
  \<^verbatim>\<open>cvs\<close> is never stored back: the map keeps the slice of the original length over the
  rewritten array.
\<close>

fun cleanup_entries ::
  "('v, 'c) externals \<Rightarrow> string \<Rightarrow> (string \<rightharpoonup> ChartVersions) \<Rightarrow> string list \<Rightarrow> log_line list \<Rightarrow>
   (string \<rightharpoonup> ChartVersions) \<times> log_line list" where
  "cleanup_entries ext source es [] logs = (es, logs)"
| "cleanup_entries ext source es (name # ks) logs =
     (case es name of
        None \<Rightarrow> cleanup_entries ext source es ks logs
      | Some cvs \<Rightarrow>
          (case cleanup_loop ext name source (cvs, length cvs, logs) (length cvs) of
             (arr, len, logs') \<Rightarrow> cleanup_entries ext source (es(name \<mapsto> arr)) ks logs'))"

text \<open>
  \<^verbatim>\<open>loadIndex\<close> returns the index together with the error (the index is never nil), here
  also with the lines it has logged; \<open>ks\<close> and \<open>ks'\<close> are the orders in which its
  loop and the loop of \<^verbatim>\<open>SortEntries\<close> visit the chart names.
\<close>

definition loadIndex ::
  "('v, 'c) externals \<Rightarrow> string list \<Rightarrow> string list \<Rightarrow> string \<Rightarrow> string \<Rightarrow>
   (IndexFile \<times> error option \<times> log_line list) outcome" where
  "loadIndex ext ks ks' data source =
     (if length data = 0 then Returns (empty_IndexFile, Some ErrEmptyIndexYaml, [])
      else case jsonOrYamlUnmarshal ext data of
        (i, Some err) \<Rightarrow> Returns (i, Some err, [])
      | (i, None) \<Rightarrow>
          (case (case Entries i of
                   None \<Rightarrow> (i, [])
                 | Some es \<Rightarrow>
                     (case cleanup_entries ext source es ks [] of
                        (es', logs) \<Rightarrow> (i\<lparr>Entries := Some es'\<rparr>, logs))) of
             (i1, logs) \<Rightarrow>
               (case SortEntries (pdqsort_large ext) (semver_lib ext) ks' i1 of
                  Panic p \<Rightarrow> Panic p
                | Returns i2 \<Rightarrow>
                    if IndexAPIVersion i2 = [] then Returns (i2, Some ErrNoAPIVersion, logs)
                    else Returns (i2, None, logs))))"

text \<open>
  \<^verbatim>\<open>LoadIndexFile\<close>: a read error is returned as it is, an error of \<^verbatim>\<open>loadIndex\<close> wrapped
  with the path, and in both cases no index.
\<close>

definition LoadIndexFile ::
  "('v, 'c) externals \<Rightarrow> string list \<Rightarrow> string list \<Rightarrow> string \<Rightarrow> (error + IndexFile) outcome" where
  "LoadIndexFile ext ks ks' path =
     (case os_ReadFile ext path of
        Inl err \<Rightarrow> Returns (Inl err)
      | Inr b \<Rightarrow>
          (case loadIndex ext ks ks' b path of
             Panic p \<Rightarrow> Panic p
           | Returns (i, Some err, logs) \<Rightarrow> Returns (Inl (Wrapped err path))
           | Returns (i, None, logs) \<Rightarrow> Returns (Inr i)))"

section \<open>A fragment of the collaborators, for concrete inputs\<close>

text \<open>
  The first checks of \<^verbatim>\<open>chart.Metadata.Validate\<close>: the API version, the name and the
  version are required, and the version parses as a semantic version.
\<close>

definition Validate_fragment :: "Metadata \<Rightarrow> Metadata \<times> error option" where
  "Validate_fragment md =
     (md,
      if APIVersion md = [] then Some (ValidationError ''validation: chart.metadata.apiVersion is required'')
      else if Name md = [] then Some (ValidationError ''validation: chart.metadata.name is required'')
      else if Version md = [] then Some (ValidationError ''validation: chart.metadata.version is required'')
      else if fragment_NewVersion (Version md) = None
        then Some (ValidationError ''validation: chart.metadata.version is invalid'')
      else None)"

text \<open>
  Collaborators for the concrete inputs: a decoder standing for a document that decodes
  to the index \<open>decoded\<close>, a cache directory \<open>files\<close>, a configuration with the one
  repository \<^verbatim>\<open>stable\<close>, and the identity for the hash.
\<close>

definition externals_fragment ::
  "IndexFile \<Rightarrow> (string \<rightharpoonup> string) \<Rightarrow> (nat \<times> nat \<times> nat, fragment_constraint) externals" where
  "externals_fragment decoded files =
     \<lparr>semver_lib = semver_fragment,
      pdqsort_large = large_unused,
      json_Valid = (\<lambda>b. False),
      json_Unmarshal = (\<lambda>b. (empty_IndexFile, Some (UnmarshalError b))),
      yaml_UnmarshalStrict = (\<lambda>b. (decoded, None)),
      Validate = Validate_fragment,
      os_ReadFile = (\<lambda>path. case files path of None \<Rightarrow> Inl (ReadFileError path) | Some b \<Rightarrow> Inr b),
      loadRepoConfig =
        (\<lambda>path. Inr [Some \<lparr>Entry_Name = ''stable'', Entry_URL = ''https://charts.example.com/stable''\<rparr>]),
      key = (\<lambda>url. Inr url),
      managerKeyPrefix = ''helm-manager-'',
      urlutil_Equal = (\<lambda>a b. a = b),
      registry_IsOCI = (\<lambda>ref. take 6 ref = ''oci://''),
      url_IsAbs = (\<lambda>ref. take 8 ref = ''https://'' \<or> take 7 ref = ''http://''),
      cache_index_path = (\<lambda>dir name. dir @ ''/'' @ name @ ''-index.yaml'')\<rparr>"

text \<open>
  Two decoded documents. The first, \<^verbatim>\<open>{apiVersion: v1, entries: {bar: [{digest: abc}], foo: [null]}}\<close>,
  has an entry with no name and no version and, under another chart name, a null entry. The
  second, \<^verbatim>\<open>{entries: {foo: [null, null]}}\<close>, has no API version and two null entries
  under one chart name.
\<close>

definition entry_without_metadata :: ChartVersion where
  "entry_without_metadata =
     \<lparr>Metadata = None, URLs = [], Created = 0, Removed = False, Digest = ''abc'',
      ChecksumDeprecated = [], EngineDeprecated = [], TillerVersionDeprecated = [],
      URLDeprecated = []\<rparr>"

definition decoded_invalid_entries :: IndexFile where
  "decoded_invalid_entries =
     index_of [''bar'' \<mapsto> [Some entry_without_metadata], ''foo'' \<mapsto> [None]]"

definition decoded_null_entries :: IndexFile where
  "decoded_null_entries =
     (index_of [''foo'' \<mapsto> [None, None]])\<lparr>IndexAPIVersion := []\<rparr>"

section \<open>\<^verbatim>\<open>IndexFile.Merge\<close>\<close>

text \<open>
  \<^verbatim>\<open>Merge\<close> takes two pointers, which may be the same index: the index files live in a
  store, by address. The body of the inner loop: \<^verbatim>\<open>cv.Name\<close> and \<^verbatim>\<open>cv.Version\<close> dereference
  the entry and its metadata; when \<^verbatim>\<open>Has\<close> reports false, \<^verbatim>\<open>cv\<close> is appended to the list of
  the receiver under the name \<^verbatim>\<open>cv.Name\<close>, which panics when the map of the receiver is nil.
\<close>

type_synonym store = "nat \<Rightarrow> IndexFile"

fun Merge_versions ::
  "('v, 'c) semver \<Rightarrow> store \<Rightarrow> nat \<Rightarrow> ChartVersions \<Rightarrow> store outcome" where
  "Merge_versions sv h i [] = Returns h"
| "Merge_versions sv h i (cv # cvs) =
     (case cv of
        None \<Rightarrow> Panic NilDereference
      | Some c \<Rightarrow>
          (case Metadata c of
             None \<Rightarrow> Panic NilDereference
           | Some md \<Rightarrow>
               (case Has sv (h i) (Name md) (Version md) of
                  Panic p \<Rightarrow> Panic p
                | Returns found \<Rightarrow>
                    if found then Merge_versions sv h i cvs
                    else
                      (case Entries (h i) of
                         None \<Rightarrow> Panic NilMapWrite
                       | Some es \<Rightarrow>
                           Merge_versions sv
                             (h(i := (h i)\<lparr>Entries := Some (es(Name md \<mapsto>
                                  (case es (Name md) of None \<Rightarrow> [] | Some e \<Rightarrow> e) @ [cv]))\<rparr>))
                             i cvs))))"

text \<open>
  \<^verbatim>\<open>for _, cvs := range f.Entries\<close>: the chart names are visited in the order \<open>ks\<close>, and
  the list of a name is read from the store when the name is visited, so that a receiver
  merged into itself sees its own appends.
\<close>

fun Merge_range ::
  "('v, 'c) semver \<Rightarrow> store \<Rightarrow> nat \<Rightarrow> nat \<Rightarrow> string list \<Rightarrow> store outcome" where
  "Merge_range sv h i f [] = Returns h"
| "Merge_range sv h i f (k # ks) =
     (case Entries_lookup (h f) k of
        None \<Rightarrow> Merge_range sv h i f ks
      | Some cvs \<Rightarrow>
          (case Merge_versions sv h i cvs of
             Panic p \<Rightarrow> Panic p
           | Returns h' \<Rightarrow> Merge_range sv h' i f ks))"

definition Merge ::
  "('v, 'c) semver \<Rightarrow> string list \<Rightarrow> store \<Rightarrow> nat \<Rightarrow> nat \<Rightarrow> store outcome" where
  "Merge sv ks h i f = Merge_range sv h i f ks"

text \<open>
  An entry that \<^verbatim>\<open>Merge\<close> can add and find again: it is not nil, has metadata, and its
  version string is not empty and parses as a constraint. \<open>keyed_by sv k\<close>: such an entry
  whose chart name is \<open>k\<close>. \<open>present sv i cv\<close>: \<^verbatim>\<open>Has\<close> finds the name and version of
  \<open>cv\<close> in the index \<open>i\<close>.
\<close>

definition mergeable :: "('v, 'c) semver \<Rightarrow> ChartVersion option \<Rightarrow> bool" where
  "mergeable sv cv =
     (case cv of
        None \<Rightarrow> False
      | Some c \<Rightarrow>
          (case Metadata c of
             None \<Rightarrow> False
           | Some md \<Rightarrow> Version md \<noteq> [] \<and> NewConstraint sv (Version md) \<noteq> None))"

definition keyed_by :: "('v, 'c) semver \<Rightarrow> string \<Rightarrow> ChartVersion option \<Rightarrow> bool" where
  "keyed_by sv k cv =
     (mergeable sv cv \<and>
      (case cv of
         None \<Rightarrow> False
       | Some c \<Rightarrow> (case Metadata c of None \<Rightarrow> False | Some md \<Rightarrow> Name md = k)))"

definition present :: "('v, 'c) semver \<Rightarrow> IndexFile \<Rightarrow> ChartVersion option \<Rightarrow> bool" where
  "present sv i cv =
     (case cv of
        None \<Rightarrow> False
      | Some c \<Rightarrow>
          (case Metadata c of
             None \<Rightarrow> False
           | Some md \<Rightarrow> Has sv i (Name md) (Version md) = Returns True))"

text \<open>The index \<open>i\<close> after \<^verbatim>\<open>i.Entries[name] = append(i.Entries[name], cv)\<close>.\<close>

definition appended :: "IndexFile \<Rightarrow> string \<Rightarrow> ChartVersion option \<Rightarrow> IndexFile" where
  "appended i name cv =
     (case Entries i of
        None \<Rightarrow> i
      | Some es \<Rightarrow>
          i\<lparr>Entries := Some (es(name \<mapsto> (case es name of None \<Rightarrow> [] | Some e \<Rightarrow> e) @ [cv]))\<rparr>)"

text \<open>An index all of whose entries can be read.\<close>

definition readable :: "IndexFile \<Rightarrow> bool" where
  "readable i = (\<forall>k cvs. Entries_lookup i k = Some cvs \<longrightarrow> list_all has_metadata cvs)"

text \<open>A store for the concrete inputs: one index at address 0, another at every other address.\<close>

definition store_of :: "IndexFile \<Rightarrow> IndexFile \<Rightarrow> store" where
  "store_of a b = (\<lambda>address. if address = 0 then a else b)"

section \<open>The repository registry\<close>

text \<open>\<^verbatim>\<open>strings.HasPrefix\<close>, \<^verbatim>\<open>strings.TrimPrefix\<close> and \<^verbatim>\<open>strings.LastIndex\<close> (\<open>-1\<close> when absent).\<close>

definition HasPrefix :: "string \<Rightarrow> string \<Rightarrow> bool" where
  "HasPrefix s p = (take (length p) s = p)"

definition TrimPrefix :: "string \<Rightarrow> string \<Rightarrow> string" where
  "TrimPrefix s p = (if HasPrefix s p then drop (length p) s else s)"

definition LastIndex :: "string \<Rightarrow> string \<Rightarrow> int" where
  "LastIndex s substr =
     (case filter (\<lambda>i. take (length substr) (drop i s) = substr) (rev [0..<Suc (length s)]) of
        [] \<Rightarrow> - 1
      | i # _ \<Rightarrow> int i)"

text \<open>
  \<^verbatim>\<open>NewChartRepositories\<close>: \<^verbatim>\<open>repos[entry.Name] = entry\<close> for every entry of the
  configuration, which dereferences the entry.
\<close>

fun collect_repos :: "Entry option list \<Rightarrow> (string \<rightharpoonup> Entry) \<Rightarrow> (string \<rightharpoonup> Entry) outcome" where
  "collect_repos [] m = Returns m"
| "collect_repos (entry # entries) m =
     (case entry of
        None \<Rightarrow> Panic NilDereference
      | Some e \<Rightarrow> collect_repos entries (m(Entry_Name e \<mapsto> e)))"

definition NewChartRepositories ::
  "('v, 'c) externals \<Rightarrow> string \<Rightarrow> string \<Rightarrow> (error + ChartRepositories) outcome" where
  "NewChartRepositories ext repoConfigPath repoCachePath =
     (case loadRepoConfig ext repoConfigPath of
        Inl err \<Rightarrow> Returns (Inl err)
      | Inr entries \<Rightarrow>
          (case collect_repos entries Map.empty of
             Panic p \<Rightarrow> Panic p
           | Returns m \<Rightarrow>
               Returns (Inr \<lparr>indexPath = repoCachePath, indices = Map.empty, repos = m\<rparr>)))"

definition getInfo :: "ChartRepositories \<Rightarrow> string \<Rightarrow> Entry option" where
  "getInfo c name = (if name = [] then None else repos c name)"

text \<open>
  \<^verbatim>\<open>getInfoByF\<close> returns the first entry that satisfies \<open>f\<close>, in the order \<open>ks\<close> in which
  \<^verbatim>\<open>range\<close> visits the names.
\<close>

definition getInfoByF :: "string list \<Rightarrow> ChartRepositories \<Rightarrow> (Entry \<Rightarrow> bool) \<Rightarrow> Entry option" where
  "getInfoByF ks c f =
     (case find (\<lambda>k. case repos c k of None \<Rightarrow> False | Some entry \<Rightarrow> f entry) ks of
        None \<Rightarrow> None
      | Some k \<Rightarrow> repos c k)"

definition getInfoByURL ::
  "('v, 'c) externals \<Rightarrow> string list \<Rightarrow> ChartRepositories \<Rightarrow> string \<Rightarrow>
   Entry option \<times> ChartRepositories" where
  "getInfoByURL ext ks c url =
     (case getInfoByF ks c (\<lambda>entry. urlutil_Equal ext (Entry_URL entry) url) of
        Some entry \<Rightarrow> (Some entry, c)
      | None \<Rightarrow>
          (case key ext url of
             Inl err \<Rightarrow> (None, c)
           | Inr generatedName \<Rightarrow>
               let generatedName = managerKeyPrefix ext @ generatedName;
                   generatedRepo = \<lparr>Entry_Name = generatedName, Entry_URL = url\<rparr>
               in (Some generatedRepo, c\<lparr>repos := (repos c)(generatedName \<mapsto> generatedRepo)\<rparr>)))"

definition GetInfoByURL ::
  "('v, 'c) externals \<Rightarrow> string list \<Rightarrow> ChartRepositories \<Rightarrow> string \<Rightarrow>
   Entry option \<times> ChartRepositories" where
  "GetInfoByURL ext ks c url = getInfoByURL ext ks c url"

definition CanonicalizeRepoName ::
  "('v, 'c) externals \<Rightarrow> string list \<Rightarrow> ChartRepositories \<Rightarrow> string \<Rightarrow>
   string \<times> ChartRepositories" where
  "CanonicalizeRepoName ext ks c name =
     (if name = [] \<or> HasPrefix name ''file://'' \<or> registry_IsOCI ext name then ([], c)
      else if getInfo c (TrimPrefix name ''@'') \<noteq> None then (TrimPrefix name ''@'', c)
      else if getInfo c (TrimPrefix name ''alias:'') \<noteq> None then (TrimPrefix name ''alias:'', c)
      else if url_IsAbs ext name then
        (case getInfoByURL ext ks c name of
           (Some entry, c') \<Rightarrow> (Entry_Name entry, c')
         | (None, c') \<Rightarrow> ([], c'))
      else ([], c))"

definition GetForRef ::
  "('v, 'c) externals \<Rightarrow> string list \<Rightarrow> ChartRepositories \<Rightarrow> string \<Rightarrow>
   string \<times> ChartRepositories" where
  "GetForRef ext ks c ref =
     (let i = LastIndex ref ''/''
      in if i > 0 then CanonicalizeRepoName ext ks c (take (nat i) ref) else ([], c))"

text \<open>
  \<^verbatim>\<open>GetIndex\<close> returns the index, the error and, here, the registry after the call;
  \<open>ks\<close> and \<open>ks'\<close> are the orders of the two loops of \<^verbatim>\<open>loadIndex\<close>.
\<close>

definition GetIndex ::
  "('v, 'c) externals \<Rightarrow> string list \<Rightarrow> string list \<Rightarrow> ChartRepositories \<Rightarrow> string \<Rightarrow>
   (IndexFile option \<times> error option \<times> ChartRepositories) outcome" where
  "GetIndex ext ks ks' c name =
     (if name = [] then Returns (None, None, c)
      else case indices c name of
        Some index \<Rightarrow> Returns (Some index, None, c)
      | None \<Rightarrow>
          (case getInfo c name of
             None \<Rightarrow> Returns (None, None, c)
           | Some repoEntry \<Rightarrow>
               (case LoadIndexFile ext ks ks'
                       (cache_index_path ext (indexPath c) (Entry_Name repoEntry)) of
                  Panic p \<Rightarrow> Panic p
                | Returns (Inl err) \<Rightarrow> Returns (None, Some err, c)
                | Returns (Inr index) \<Rightarrow>
                    Returns (Some index, None, c\<lparr>indices := (indices c)(name \<mapsto> index)\<rparr>))))"

text \<open>
  The registries that a program can hold: made by \<^verbatim>\<open>NewChartRepositories\<close> (the fields are
  not exported) and changed by the calls that write to it. \<^verbatim>\<open>GetForDeps\<close> is a sequence of
  calls of \<^verbatim>\<open>CanonicalizeRepoName\<close>; the other methods only read.
\<close>

inductive reachable :: "('v, 'c) externals \<Rightarrow> ChartRepositories \<Rightarrow> bool" for ext where
  new: "NewChartRepositories ext repoConfigPath repoCachePath = Returns (Inr c) \<Longrightarrow> reachable ext c"
| get_index: "reachable ext c \<Longrightarrow> GetIndex ext ks ks' c name = Returns (r, err, c') \<Longrightarrow> reachable ext c'"
| by_url: "reachable ext c \<Longrightarrow> GetInfoByURL ext ks c url = (entry, c') \<Longrightarrow> reachable ext c'"
| canonicalize: "reachable ext c \<Longrightarrow> CanonicalizeRepoName ext ks c name = (canonical, c') \<Longrightarrow> reachable ext c'"
| for_ref: "reachable ext c \<Longrightarrow> GetForRef ext ks c ref = (canonical, c') \<Longrightarrow> reachable ext c'"

text \<open>
  Registries for the concrete inputs: the one that \<^verbatim>\<open>NewChartRepositories\<close> makes from the
  configuration with the repository \<^verbatim>\<open>stable\<close>, and one whose only entry is named like the
  synthetic entry of the URL \<^verbatim>\<open>https://example.com/charts\<close> but has another URL.
\<close>

definition registry_stable :: ChartRepositories where
  "registry_stable =
     \<lparr>indexPath = ''/cache'',
      indices = Map.empty,
      repos = [''stable'' \<mapsto> \<lparr>Entry_Name = ''stable'', Entry_URL = ''https://charts.example.com/stable''\<rparr>]\<rparr>"

definition registry_taken :: ChartRepositories where
  "registry_taken =
     \<lparr>indexPath = ''/cache'',
      indices = Map.empty,
      repos = [''helm-manager-https://example.com/charts'' \<mapsto>
                 \<lparr>Entry_Name = ''helm-manager-https://example.com/charts'',
                  Entry_URL = ''https://mirror.example.com/charts''\<rparr>]\<rparr>"


section \<open>Properties of \<^verbatim>\<open>ChartVersions.Get\<close>\<close>

lemma Version_of_has_metadata:
  "has_metadata ver \<Longrightarrow> \<exists>v. Version_of ver = Returns v"
  by (auto simp: has_metadata_def Version_of_def split: option.splits)

lemma exact_match_find:
  assumes "list_all has_metadata c"
  shows "exact_match version c =
           Returns (case find (\<lambda>ver. Version_of ver = Returns version) c of
                      None \<Rightarrow> None | Some ver \<Rightarrow> ver)"
  using assms
proof (induction c)
  case Nil
  then show ?case by simp
next
  case (Cons ver c)
  then obtain v where "Version_of ver = Returns v"
    using Version_of_has_metadata by auto
  with Cons show ?case by auto
qed

lemma Version_of_Returns_Some:
  "Version_of ver = Returns v \<Longrightarrow> \<exists>cv. ver = Some cv"
  by (auto simp: Version_of_def split: option.splits)

text \<open>
  Claim C1, as amended. \<^verbatim>\<open>Get\<close> parses the requested string as a constraint before it
  looks for an exact match, and returns the parse error when that fails. So: for every list
  of entries that are not nil and carry metadata, and every requested version string that
  is not empty and parses as a constraint, if some entry's raw version string equals the
  requested one, \<^verbatim>\<open>Get\<close> returns the first such entry in list order. Nothing is asked of
  \<^verbatim>\<open>NewVersion\<close>: the entry is returned whether or not its version string parses as a
  semantic version, and whether or not any entry satisfies the constraint.
\<close>

theorem ChartVersions_Get_exact_match:
  assumes "version \<noteq> []"
    and "NewConstraint sv version \<noteq> None"
    and "list_all has_metadata c"
    and "\<exists>ver \<in> set c. Version_of ver = Returns version"
  shows "\<exists>e. find (\<lambda>ver. Version_of ver = Returns version) c = Some (Some e)
           \<and> ChartVersions_Get sv c name version = Returns (Inr e)"
proof -
  from assms(4) obtain ver where
    f: "find (\<lambda>ver. Version_of ver = Returns version) c = Some ver"
    by (cases "find (\<lambda>ver. Version_of ver = Returns version) c") (auto simp: find_None_iff)
  then have "Version_of ver = Returns version"
    by (auto simp: find_Some_iff)
  then obtain e where e: "ver = Some e"
    using Version_of_Returns_Some by blast
  have "exact_match version c = Returns (Some e)"
    using exact_match_find [OF assms(3), of version] f e by simp
  with assms(1,2) f e show ?thesis
    by (simp add: ChartVersions_Get_def)
qed

text \<open>The theorem at a list whose first entry has a version that does not parse.\<close>

theorem ChartVersions_Get_exact_match_witness:
  "find (\<lambda>ver. Version_of ver = Returns ''1.0.0'')
      [Some (entry_of ''mychart'' ''latest''), Some (entry_of ''mychart'' ''1.0.0'')]
     = Some (Some (entry_of ''mychart'' ''1.0.0''))
   \<and> ChartVersions_Get semver_fragment
        [Some (entry_of ''mychart'' ''latest''), Some (entry_of ''mychart'' ''1.0.0'')]
        ''mychart'' ''1.0.0''
     = Returns (Inr (entry_of ''mychart'' ''1.0.0''))"
proof -
  have h1: "''1.0.0'' \<noteq> []" by simp
  have h2: "NewConstraint semver_fragment ''1.0.0'' \<noteq> None"
    by (simp add: semver_fragment_def fragment_NewConstraint_def fragment_NewVersion_def
        number_def digit_of_def)
  have h3: "list_all has_metadata
      [Some (entry_of ''mychart'' ''latest''), Some (entry_of ''mychart'' ''1.0.0'')]"
    by (simp add: has_metadata_def entry_of_def)
  have h4: "\<exists>ver \<in> set [Some (entry_of ''mychart'' ''latest''), Some (entry_of ''mychart'' ''1.0.0'')].
      Version_of ver = Returns ''1.0.0''"
    by (simp add: Version_of_def entry_of_def)
  from ChartVersions_Get_exact_match [OF h1 h2 h3 h4, of "''mychart''"]
  show ?thesis
    by (simp add: Version_of_def entry_of_def)
qed

text \<open>
  Claim C1 as stated fails where the requested string is not a constraint: the only entry
  has the raw version string \<^verbatim>\<open>latest\<close>, \<^verbatim>\<open>latest\<close> is requested, and \<^verbatim>\<open>Get\<close> returns the
  error of \<^verbatim>\<open>semver.NewConstraint\<close> instead of the entry.
\<close>

theorem ChartVersions_Get_exact_match_counterexample:
  "Version_of (Some (entry_of ''mychart'' ''latest'')) = Returns ''latest''
   \<and> ''latest'' \<noteq> []
   \<and> ChartVersions_Get semver_fragment [Some (entry_of ''mychart'' ''latest'')]
        ''mychart'' ''latest''
     = Returns (Inl (ImproperConstraint ''latest''))"
  by (simp add: ChartVersions_Get_def Version_of_def entry_of_def semver_fragment_def
      fragment_NewConstraint_def fragment_NewVersion_def number_def digit_of_def)

lemma Version_of_same_but_Removed:
  assumes "same_but_Removed ver ver'"
  shows "Version_of ver' = Version_of ver"
proof (cases ver)
  case None
  with assms show ?thesis by (simp add: same_but_Removed_def)
next
  case (Some a)
  show ?thesis
  proof (cases ver')
    case None
    with Some assms show ?thesis by (simp add: same_but_Removed_def)
  next
    case b: (Some b)
    from assms Some b have "a\<lparr>Removed := Removed b\<rparr> = b"
      by (simp add: same_but_Removed_def)
    then have "Metadata b = Metadata (a\<lparr>Removed := Removed b\<rparr>)" by simp
    then have "Metadata b = Metadata a" by simp
    with Some b show ?thesis by (simp add: Version_of_def)
  qed
qed

lemma exact_match_same_but_Removed:
  assumes "list_all2 same_but_Removed c d"
  shows "case exact_match version c of
           Panic p \<Rightarrow> exact_match version d = Panic p
         | Returns r \<Rightarrow> (\<exists>r'. exact_match version d = Returns r' \<and> same_but_Removed r r')"
  using assms
proof (induction c d rule: list_all2_induct)
  case Nil
  then show ?case by (simp add: same_but_Removed_def)
next
  case (Cons ver c ver' d)
  from Cons.hyps(1) have v: "Version_of ver' = Version_of ver"
    by (rule Version_of_same_but_Removed)
  show ?case
  proof (cases "Version_of ver")
    case (Panic p)
    with v show ?thesis by simp
  next
    case (Returns w)
    with v Cons show ?thesis by (cases "version = w") (auto split: outcome.splits)
  qed
qed

lemma constraint_match_same_but_Removed:
  assumes "list_all2 same_but_Removed c d"
  shows "case constraint_match sv k c of
           Panic p \<Rightarrow> constraint_match sv k d = Panic p
         | Returns r \<Rightarrow> (\<exists>r'. constraint_match sv k d = Returns r' \<and> same_but_Removed r r')"
  using assms
proof (induction c d rule: list_all2_induct)
  case Nil
  then show ?case by (simp add: same_but_Removed_def)
next
  case (Cons ver c ver' d)
  from Cons.hyps(1) have v: "Version_of ver' = Version_of ver"
    by (rule Version_of_same_but_Removed)
  show ?case
  proof (cases "Version_of ver")
    case (Panic p)
    with v show ?thesis by simp
  next
    case (Returns w)
    with v Cons show ?thesis
      by (auto split: option.splits outcome.splits)
  qed
qed

text \<open>
  Claim C10. \<^verbatim>\<open>Get\<close> never reads the \<^verbatim>\<open>Removed\<close> flag: on two lists whose entries agree
  position by position in everything but that flag, and for every requested version
  string, both calls panic alike, or return the same error, or return entries that agree
  in everything but the flag (each list its own entry, flag included).
\<close>

theorem ChartVersions_Get_ignores_Removed:
  assumes "list_all2 same_but_Removed c d"
  shows "same_result_but_Removed (ChartVersions_Get sv c name version)
           (ChartVersions_Get sv d name version)"
proof -
  let ?k = "if version = [] then NewConstraint sv ''*'' else NewConstraint sv version"
  note e = exact_match_same_but_Removed [OF assms, of version]
  note k = constraint_match_same_but_Removed [OF assms, of sv ?k]
  show ?thesis
  proof (cases "version \<noteq> [] \<and> NewConstraint sv version = None")
    case True
    then show ?thesis
      by (simp add: ChartVersions_Get_def same_result_but_Removed_def)
  next
    case False
    show ?thesis
    proof (cases "version = []")
      case True
      with k show ?thesis
        by (auto simp: ChartVersions_Get_def same_result_but_Removed_def same_but_Removed_def
            split: outcome.splits option.splits)
    next
      case nonempty: False
      with False e k show ?thesis
        by (auto simp: ChartVersions_Get_def same_result_but_Removed_def same_but_Removed_def
            split: outcome.splits option.splits)
    qed
  qed
qed

text \<open>The theorem at a list whose newest entry is tombstoned: that entry is returned.\<close>

theorem ChartVersions_Get_ignores_Removed_witness:
  "same_result_but_Removed
     (ChartVersions_Get semver_fragment
        [Some ((entry_of ''mychart'' ''2.0.0'')\<lparr>Removed := True\<rparr>), Some (entry_of ''mychart'' ''1.0.0'')]
        ''mychart'' [])
     (ChartVersions_Get semver_fragment
        [Some (entry_of ''mychart'' ''2.0.0''), Some (entry_of ''mychart'' ''1.0.0'')]
        ''mychart'' [])
   \<and> ChartVersions_Get semver_fragment
        [Some ((entry_of ''mychart'' ''2.0.0'')\<lparr>Removed := True\<rparr>), Some (entry_of ''mychart'' ''1.0.0'')]
        ''mychart'' []
      = Returns (Inr ((entry_of ''mychart'' ''2.0.0'')\<lparr>Removed := True\<rparr>))"
proof -
  have h: "list_all2 same_but_Removed
      [Some ((entry_of ''mychart'' ''2.0.0'')\<lparr>Removed := True\<rparr>), Some (entry_of ''mychart'' ''1.0.0'')]
      [Some (entry_of ''mychart'' ''2.0.0''), Some (entry_of ''mychart'' ''1.0.0'')]"
    by (simp add: same_but_Removed_def entry_of_def)
  have "ChartVersions_Get semver_fragment
        [Some ((entry_of ''mychart'' ''2.0.0'')\<lparr>Removed := True\<rparr>), Some (entry_of ''mychart'' ''1.0.0'')]
        ''mychart'' []
      = Returns (Inr ((entry_of ''mychart'' ''2.0.0'')\<lparr>Removed := True\<rparr>))"
    by (simp add: ChartVersions_Get_def Version_of_def entry_of_def semver_fragment_def
        fragment_NewConstraint_def fragment_NewVersion_def number_def digit_of_def)
  with ChartVersions_Get_ignores_Removed [OF h, of semver_fragment "''mychart''" "[]"]
  show ?thesis by simp
qed

section \<open>The insertion sort of \<^verbatim>\<open>sort.Sort\<close> on version lists\<close>

lemma insertionSort_inner_insert_back:
  assumes data_Less: "\<And>c i j. list_all P c \<Longrightarrow> i < length c \<Longrightarrow> j < length c \<Longrightarrow>
                   data_Less c i j = Returns (lt (c ! i) (c ! j))"
    and wf: "list_all P (rev r @ x # s)"
  shows "insertionSort_inner data_Less (rev r @ x # s) 0 (length r)
           = Returns (rev (insert_back lt x r) @ s)"
  using wf
proof (induction r arbitrary: s)
  case Nil
  then show ?case by simp
next
  case (Cons y r)
  let ?c = "rev (y # r) @ x # s"
  have n: "?c ! Suc (length r) = x" "?c ! length r = y"
    by (simp_all add: nth_append)
  have l: "data_Less ?c (Suc (length r)) (length r) = Returns (lt x y)"
    using data_Less [OF Cons.prems, of "Suc (length r)" "length r"] n by simp
  have sw: "Swap ?c (Suc (length r)) (length r) = rev r @ x # y # s"
    by (simp add: Swap_def nth_append list_update_append)
  have wf': "list_all P (rev r @ x # y # s)"
    using Cons.prems by (auto simp: list_all_iff)
  show ?case
  proof (cases "lt x y")
    case True
    with l sw Cons.IH [OF wf'] show ?thesis by simp
  next
    case False
    with l show ?thesis by simp
  qed
qed

lemma length_insert_back: "length (insert_back lt x r) = Suc (length r)"
  by (induction r) auto

lemma set_insert_back: "set (insert_back lt x r) = insert x (set r)"
  by (induction r) auto

lemma mset_insert_back: "mset (insert_back lt x r) = add_mset x (mset r)"
  by (induction r) auto

lemma insertionSort_outer_foldl:
  assumes less: "\<And>c i j. list_all P c \<Longrightarrow> i < length c \<Longrightarrow> j < length c \<Longrightarrow>
                   data_Less c i j = Returns (lt (c ! i) (c ! j))"
    and wf: "list_all P (rev r @ rest)"
  shows "insertionSort_outer data_Less (rev r @ rest) 0 (length r) (length r + length rest)
           = Returns (rev (foldl (\<lambda>r x. insert_back lt x r) r rest))"
  using wf
proof (induction rest arbitrary: r)
  case Nil
  then show ?case by simp
next
  case (Cons x rest)
  have inner: "insertionSort_inner data_Less (rev r @ x # rest) 0 (length r)
                 = Returns (rev (insert_back lt x r) @ rest)"
    using less Cons.prems by (rule insertionSort_inner_insert_back)
  have wf': "list_all P (rev (insert_back lt x r) @ rest)"
    using Cons.prems by (auto simp: list_all_iff set_insert_back)
  have "insertionSort_outer data_Less (rev (insert_back lt x r) @ rest) 0
          (length (insert_back lt x r)) (length (insert_back lt x r) + length rest)
        = Returns (rev (foldl (\<lambda>r x. insert_back lt x r) (insert_back lt x r) rest))"
    using wf' by (rule Cons.IH)
  with inner show ?case
    by (simp add: length_insert_back)
qed


lemma Reverse_Less_reverse_less:
  assumes "list_all has_metadata c" and "i < length c" and "j < length c"
  shows "Reverse_Less (ChartVersions_Less sv) c i j = Returns (reverse_less sv (c ! i) (c ! j))"
proof -
  from assms have "has_metadata (c ! i)" "has_metadata (c ! j)"
    by (simp_all add: list_all_length)
  then obtain vi vj where "Version_of (c ! i) = Returns vi" "Version_of (c ! j) = Returns vj"
    using Version_of_has_metadata by blast
  with assms(2,3) show ?thesis
    by (simp add: Reverse_Less_def ChartVersions_Less_def reverse_less_def parsed_def
        split: option.splits)
qed

lemma in_order_insert_back:
  assumes swo: "strict_weak_order (LessThan sv)"
    and inv: "sorted_wrt (\<lambda>a b. in_order sv b a) r"
  shows "sorted_wrt (\<lambda>a b. in_order sv b a) (insert_back (reverse_less sv) x r)"
  using inv
proof (induction r)
  case Nil
  then show ?case by simp
next
  case (Cons y r)
  from swo have asym: "\<And>a b. LessThan sv a b \<Longrightarrow> \<not> LessThan sv b a"
    and cotrans: "\<And>a b c. \<not> LessThan sv a b \<Longrightarrow> \<not> LessThan sv b c \<Longrightarrow> \<not> LessThan sv a c"
    unfolding strict_weak_order_def by blast+
  show ?case
  proof (cases "reverse_less sv x y")
    case True
    then have "in_order sv x y"
      using asym by (auto simp: reverse_less_def in_order_def split: option.splits)
    with True Cons show ?thesis
      by (auto simp: set_insert_back)
  next
    case False
    have "in_order sv b x" if "b \<in> set (y # r)" for b
    proof (cases "parsed sv x")
      case None
      then show ?thesis by (simp add: in_order_def)
    next
      case (Some vx)
      with False obtain vy where vy: "parsed sv y = Some vy" "\<not> LessThan sv vy vx"
        by (auto simp: reverse_less_def split: option.splits)
      show ?thesis
      proof (cases "b = y")
        case True
        with Some vy show ?thesis by (simp add: in_order_def)
      next
        case False
        with that Cons.prems have "in_order sv b y" by auto
        with vy obtain vb where "parsed sv b = Some vb" "\<not> LessThan sv vb vy"
          by (auto simp: in_order_def split: option.splits)
        with vy Some cotrans show ?thesis
          by (auto simp: in_order_def)
      qed
    qed
    with False Cons.prems show ?thesis by auto
  qed
qed

lemma same_rank_insert_back:
  assumes swo: "strict_weak_order (LessThan sv)"
  shows "filter (same_rank sv v) (insert_back (reverse_less sv) x r)
           = (if same_rank sv v x then x # filter (same_rank sv v) r
              else filter (same_rank sv v) r)"
proof (induction r)
  case Nil
  then show ?case by simp
next
  case (Cons y r)
  from swo have cotrans:
    "\<And>a b c. \<not> LessThan sv a b \<Longrightarrow> \<not> LessThan sv b c \<Longrightarrow> \<not> LessThan sv a c"
    unfolding strict_weak_order_def by blast
  have "\<not> same_rank sv v y" if "reverse_less sv x y" "same_rank sv v x"
    using that cotrans
    by (auto simp: reverse_less_def same_rank_def split: option.splits)
  with Cons show ?case by auto
qed

lemma unparseable_insert_back:
  assumes inv: "sorted_wrt (\<lambda>a b. in_order sv b a) r"
  shows "filter (\<lambda>e. parsed sv e = None) (insert_back (reverse_less sv) x r)
           = (if parsed sv x = None then filter (\<lambda>e. parsed sv e = None) r @ [x]
              else filter (\<lambda>e. parsed sv e = None) r)"
  using inv
proof (induction r)
  case Nil
  then show ?case by simp
next
  case (Cons y r)
  show ?case
  proof (cases "parsed sv y")
    case None
    then have "reverse_less sv x y" by (simp add: reverse_less_def)
    with None Cons show ?thesis by simp
  next
    case (Some vy)
    with Cons.prems have "\<forall>b \<in> set r. parsed sv b \<noteq> None"
      by (auto simp: in_order_def split: option.splits)
    then have none: "filter (\<lambda>e. parsed sv e = None) r = []"
      by (simp add: filter_empty_conv)
    show ?thesis
    proof (cases "reverse_less sv x y")
      case True
      with Some have "parsed sv x \<noteq> None"
        by (auto simp: reverse_less_def split: option.splits)
      with True Some Cons show ?thesis by simp
    next
      case False
      with Some none show ?thesis by simp
    qed
  qed
qed

lemma foldl_insert_back_properties:
  assumes swo: "strict_weak_order (LessThan sv)"
    and inv: "sorted_wrt (\<lambda>a b. in_order sv b a) r"
  shows "sorted_wrt (\<lambda>a b. in_order sv b a)
            (foldl (\<lambda>r x. insert_back (reverse_less sv) x r) r rest)
       \<and> mset (foldl (\<lambda>r x. insert_back (reverse_less sv) x r) r rest) = mset r + mset rest
       \<and> filter (same_rank sv v) (foldl (\<lambda>r x. insert_back (reverse_less sv) x r) r rest)
           = rev (filter (same_rank sv v) rest) @ filter (same_rank sv v) r
       \<and> filter (\<lambda>e. parsed sv e = None)
            (foldl (\<lambda>r x. insert_back (reverse_less sv) x r) r rest)
           = filter (\<lambda>e. parsed sv e = None) r @ filter (\<lambda>e. parsed sv e = None) rest"
  using inv
proof (induction rest arbitrary: r)
  case Nil
  then show ?case by simp
next
  case (Cons x rest)
  have inv': "sorted_wrt (\<lambda>a b. in_order sv b a) (insert_back (reverse_less sv) x r)"
    using swo Cons.prems by (rule in_order_insert_back)
  from Cons.IH [OF inv'] show ?case
    by (simp add: mset_insert_back same_rank_insert_back [OF swo]
        unparseable_insert_back [OF Cons.prems])
qed


section \<open>Properties of \<^verbatim>\<open>IndexFile.SortEntries\<close>\<close>


text \<open>
  On a list whose entries can be read, ascending order as determined by \<^verbatim>\<open>Less\<close> of the
  reversed version list is the order of a sorted version list.
\<close>

lemma reverse_less_in_order:
  assumes "\<forall>a b. \<not> (LessThan sv a b \<and> LessThan sv b a)"
  shows "(reverse_less sv y x \<longrightarrow> reverse_less sv x y) = in_order sv x y"
proof (cases "parsed sv x")
  case None
  then show ?thesis
    by (cases "parsed sv y") (simp_all add: reverse_less_def in_order_def)
next
  case (Some vx)
  show ?thesis
  proof (cases "parsed sv y")
    case None
    with Some show ?thesis by (simp add: reverse_less_def in_order_def)
  next
    case (Some vy)
    from assms have "\<not> (LessThan sv vx vy \<and> LessThan sv vy vx)" by simp
    with Some \<open>parsed sv x = Some vx\<close> show ?thesis
      by (auto simp: reverse_less_def in_order_def)
  qed
qed

lemma ascending_in_order:
  assumes asym: "\<forall>a b. \<not> (LessThan sv a b \<and> LessThan sv b a)"
    and wf: "list_all has_metadata ys"
  shows "ascending (Reverse_Less (ChartVersions_Less sv)) ys = sorted_wrt (in_order sv) ys"
proof -
  have pair: "(Reverse_Less (ChartVersions_Less sv) ys j i = Returns True
                \<longrightarrow> Reverse_Less (ChartVersions_Less sv) ys i j = Returns True)
              = in_order sv (ys ! i) (ys ! j)"
    if "i < length ys" and "j < length ys" for i j
    using Reverse_Less_reverse_less [OF wf that(1) that(2), of sv]
      Reverse_Less_reverse_less [OF wf that(2) that(1), of sv]
      reverse_less_in_order [OF asym, of "ys ! j" "ys ! i"]
    by simp
  have "ascending (Reverse_Less (ChartVersions_Less sv)) ys
          = (\<forall>j<length ys. \<forall>i<j. in_order sv (ys ! i) (ys ! j))"
    unfolding ascending_def list_all_iff
  proof (intro iffI allI impI ballI)
    fix j i
    assume a: "\<forall>j\<in>set [0..<length ys]. \<forall>i\<in>set [0..<j].
                 Reverse_Less (ChartVersions_Less sv) ys j i = Returns True
                 \<longrightarrow> Reverse_Less (ChartVersions_Less sv) ys i j = Returns True"
      and j: "j < length ys" and i: "i < j"
    from a j i have "Reverse_Less (ChartVersions_Less sv) ys j i = Returns True
                 \<longrightarrow> Reverse_Less (ChartVersions_Less sv) ys i j = Returns True"
      by simp
    with pair [of i j] i j show "in_order sv (ys ! i) (ys ! j)" by simp
  next
    fix j i
    assume a: "\<forall>j<length ys. \<forall>i<j. in_order sv (ys ! i) (ys ! j)"
      and j: "j \<in> set [0..<length ys]" and i: "i \<in> set [0..<j]"
      and l: "Reverse_Less (ChartVersions_Less sv) ys j i = Returns True"
    from j i have ij: "i < j" "j < length ys" by simp_all
    with a have "in_order sv (ys ! i) (ys ! j)" by simp
    with pair [of i j] ij l show "Reverse_Less (ChartVersions_Less sv) ys i j = Returns True"
      by simp
  qed
  also have "\<dots> = sorted_wrt (in_order sv) ys"
    by (auto simp: sorted_wrt_iff_nth_less)
  finally show ?thesis .
qed

lemma strict_weak_order_asymmetric:
  assumes "strict_weak_order lt"
  shows "\<forall>a b. \<not> (lt a b \<and> lt b a)"
  using assms by (simp add: strict_weak_order_def)

lemma has_metadata_permutation:
  assumes "mset ys = mset xs" and "list_all has_metadata xs"
  shows "list_all has_metadata ys"
proof -
  from assms(1) have "set ys = set xs" by (rule mset_eq_setD)
  with assms(2) show ?thesis by (simp add: list_all_iff)
qed




section \<open>Concrete sorted indices, and \<^verbatim>\<open>IndexFile.Get\<close> with an empty version\<close>

lemmas fragment_defs = semver_fragment_def fragment_NewConstraint_def fragment_NewVersion_def
  number_def digit_of_def

lemmas sort_defs = SortEntries_def sort_Sort_def maxInsertion_def insertionSort_def
  Reverse_Less_def ChartVersions_Less_def Swap_def Version_of_def entry_of_def index_of_def


lemma strict_weak_order_fragment: "strict_weak_order (LessThan semver_fragment)"
  by (auto simp: strict_weak_order_def semver_fragment_def)

lemma SortEntries_example:
  "SortEntries large_unused semver_fragment [''mychart'']
     (index_of [''mychart'' \<mapsto> example_versions])
   = Returns (index_of [''mychart'' \<mapsto> example_versions_sorted])"
  by (simp add: example_versions_def example_versions_sorted_def sort_defs fragment_defs)

text \<open>
  The insertion sort of a whole slice, of any length, and the sort that reverses the slice
  first: it sorts every version list whose entries can be read.
\<close>

lemma insertionSort_whole:
  assumes less: "\<And>c i j. list_all P c \<Longrightarrow> i < length c \<Longrightarrow> j < length c \<Longrightarrow>
                   data_Less c i j = Returns (lt (c ! i) (c ! j))"
    and wf: "list_all P data"
  shows "insertionSort data_Less data 0 (length data)
           = Returns (rev (foldl (\<lambda>r x. insert_back lt x r) [] data))"
proof (cases data)
  case Nil
  then show ?thesis by (simp add: insertionSort_def)
next
  case (Cons x rest)
  have "list_all P (rev [x] @ rest)"
    using wf Cons by simp
  from insertionSort_outer_foldl [of P data_Less lt "[x]" rest, OF less this]
  have "insertionSort_outer data_Less data 0 1 (length data)
          = Returns (rev (foldl (\<lambda>r x. insert_back lt x r) [] data))"
    using Cons by simp
  then show ?thesis by (simp add: insertionSort_def)
qed

lemma large_reversing_sorts:
  assumes swo: "strict_weak_order (LessThan sv)"
    and wf: "list_all has_metadata xs"
  shows "sorts_slice large_reversing (Reverse_Less (ChartVersions_Less sv)) xs"
proof -
  let ?r = "foldl (\<lambda>r x. insert_back (reverse_less sv) x r) [] (rev xs)"
  from wf have wfr: "list_all has_metadata (rev xs)" by simp
  from insertionSort_whole [of has_metadata "Reverse_Less (ChartVersions_Less sv)"
         "reverse_less sv" "rev xs", OF Reverse_Less_reverse_less wfr]
  have s: "large_reversing (Reverse_Less (ChartVersions_Less sv)) xs = Returns (rev ?r)"
    by (simp add: large_reversing_def)
  have p: "sorted_wrt (\<lambda>a b. in_order sv b a) ?r" "mset ?r = mset xs"
    using foldl_insert_back_properties [OF swo, of "[]" "rev xs"] by simp_all
  from p(1) have sorted: "sorted_wrt (in_order sv) (rev ?r)"
    by (simp add: sorted_wrt_rev)
  from p(2) have m: "mset (rev ?r) = mset xs" by simp
  from m wf have "list_all has_metadata (rev ?r)" by (rule has_metadata_permutation)
  with sorted have "ascending (Reverse_Less (ChartVersions_Less sv)) (rev ?r)"
    by (simp add: ascending_in_order [OF strict_weak_order_asymmetric [OF swo]])
  with s m show ?thesis by (simp add: sorts_slice_def)
qed

lemma SortEntries_example_long:
  "SortEntries large_reversing semver_fragment [''mychart'']
     (index_of [''mychart'' \<mapsto> example_versions_long])
   = Returns (index_of [''mychart'' \<mapsto> rev example_versions_long])"
  by (simp add: example_versions_long_def sort_defs large_reversing_def fragment_defs)

text \<open>
  A sort of the long slices that returns a permutation in ascending order need not keep
  entries of equal version in their order: on the list of 13 entries the two entries of
  version \<^verbatim>\<open>1.0.0\<close> change places.
\<close>

lemma SortEntries_long_list_equal_versions:
  "sorts_slice large_reversing (Reverse_Less (ChartVersions_Less semver_fragment))
     example_versions_long
   \<and> SortEntries large_reversing semver_fragment [''mychart'']
        (index_of [''mychart'' \<mapsto> example_versions_long])
      = Returns (index_of [''mychart'' \<mapsto> rev example_versions_long])
   \<and> filter (same_rank semver_fragment (1, 0, 0)) example_versions_long
      = [Some (entry_of ''mychart'' ''1.0.0''),
         Some ((entry_of ''mychart'' ''1.0.0'')\<lparr>Digest := ''b''\<rparr>)]
   \<and> filter (same_rank semver_fragment (1, 0, 0)) (rev example_versions_long)
      = [Some ((entry_of ''mychart'' ''1.0.0'')\<lparr>Digest := ''b''\<rparr>),
         Some (entry_of ''mychart'' ''1.0.0'')]"
proof (intro conjI)
  have "list_all has_metadata example_versions_long"
    by (simp add: example_versions_long_def has_metadata_def entry_of_def)
  with strict_weak_order_fragment
  show "sorts_slice large_reversing (Reverse_Less (ChartVersions_Less semver_fragment))
          example_versions_long"
    by (rule large_reversing_sorts)
  show "SortEntries large_reversing semver_fragment [''mychart'']
          (index_of [''mychart'' \<mapsto> example_versions_long])
        = Returns (index_of [''mychart'' \<mapsto> rev example_versions_long])"
    by (rule SortEntries_example_long)
  show "filter (same_rank semver_fragment (1, 0, 0)) example_versions_long
      = [Some (entry_of ''mychart'' ''1.0.0''),
         Some ((entry_of ''mychart'' ''1.0.0'')\<lparr>Digest := ''b''\<rparr>)]"
    by (simp add: example_versions_long_def same_rank_def parsed_def Version_of_def entry_of_def
        fragment_defs)
  show "filter (same_rank semver_fragment (1, 0, 0)) (rev example_versions_long)
      = [Some ((entry_of ''mychart'' ''1.0.0'')\<lparr>Digest := ''b''\<rparr>),
         Some (entry_of ''mychart'' ''1.0.0'')]"
    by (simp add: example_versions_long_def same_rank_def parsed_def Version_of_def entry_of_def
        fragment_defs)
qed


lemma parsed_Some:
  assumes "parsed sv (Some e) = Some t"
  shows "\<exists>v. Version_of (Some e) = Returns v \<and> NewVersion sv v = Some t"
proof (cases "Version_of (Some e)")
  case (Panic p)
  with assms show ?thesis by (simp add: parsed_def)
next
  case (Returns v)
  with assms show ?thesis by (simp add: parsed_def)
qed

text \<open>
  Claim C2, as amended. For every index, sorted by \<^verbatim>\<open>SortEntries\<close> or not, and every chart
  name with a non-empty version list: if the entry at position 0 is not nil, its version
  parses as a semantic version and the constraint \<^verbatim>\<open>*\<close> accepts that version, then
  \<^verbatim>\<open>IndexFile.Get\<close> with an empty version string returns the entry at position 0. (The
  library's \<^verbatim>\<open>*\<close> rejects pre-release versions, and the doc comment of \<^verbatim>\<open>Get\<close> says that
  they are skipped.)
\<close>

theorem IndexFile_Get_empty_version:
  assumes "Entries_lookup i name = Some (Some e # rest)"
    and "parsed sv (Some e) = Some t"
    and "NewConstraint sv ''*'' = Some star"
    and "Check sv star t"
  shows "IndexFile_Get sv i name [] = Returns (Inr e)"
proof -
  from parsed_Some [OF assms(2)]
  obtain v where v: "Version_of (Some e) = Returns v" "NewVersion sv v = Some t"
    by auto
  have g: "GetVersions i name = Inr (Some e # rest)"
    using assms(1) by (simp add: GetVersions_def)
  have m: "constraint_match sv (Some star) (Some e # rest) = Returns (Some e)"
    using v assms(4) by simp
  have "ChartVersions_Get sv (Some e # rest) name [] = Returns (Inr e)"
    unfolding ChartVersions_Get_def using m assms(3) by simp
  with g show ?thesis
    by (simp add: IndexFile_Get_def)
qed

text \<open>The theorem at the sorted example index: the newest release is returned.\<close>

theorem IndexFile_Get_empty_version_witness:
  "SortEntries large_unused semver_fragment [''mychart'']
        (index_of [''mychart'' \<mapsto> example_versions])
      = Returns (index_of [''mychart'' \<mapsto> example_versions_sorted])
   \<and> IndexFile_Get semver_fragment (index_of [''mychart'' \<mapsto> example_versions_sorted])
        ''mychart'' []
      = Returns (Inr (entry_of ''mychart'' ''2.0.0''))"
proof -
  have h1: "Entries_lookup (index_of [''mychart'' \<mapsto> example_versions_sorted]) ''mychart''
              = Some (Some (entry_of ''mychart'' ''2.0.0'') # tl example_versions_sorted)"
    by (simp add: Entries_lookup_def index_of_def example_versions_sorted_def)
  have h2: "parsed semver_fragment (Some (entry_of ''mychart'' ''2.0.0'')) = Some (2, 0, 0)"
    by (simp add: parsed_def Version_of_def entry_of_def fragment_defs)
  have h3: "NewConstraint semver_fragment ''*'' = Some AnyRelease"
    by (simp add: fragment_defs)
  have h4: "Check semver_fragment AnyRelease (2, 0, 0)"
    by (simp add: fragment_defs)
  from IndexFile_Get_empty_version [OF h1 h2 h3 h4] SortEntries_example
  show ?thesis by simp
qed

text \<open>
  Claim C2 as stated fails where the entry at position 0 has a version that does not
  parse: the index with the single entry \<^verbatim>\<open>latest\<close> is sorted, its version list is not
  empty, and \<^verbatim>\<open>Get\<close> with an empty version returns the no-version-found error.
\<close>

theorem IndexFile_Get_empty_version_counterexample:
  "SortEntries large_unused semver_fragment [''mychart'']
        (index_of [''mychart'' \<mapsto> [Some (entry_of ''mychart'' ''latest'')]])
      = Returns (index_of [''mychart'' \<mapsto> [Some (entry_of ''mychart'' ''latest'')]])
   \<and> IndexFile_Get semver_fragment
        (index_of [''mychart'' \<mapsto> [Some (entry_of ''mychart'' ''latest'')]]) ''mychart'' []
      = Returns (Inl (NoVersionFound ''mychart'' []))"
  by (simp add: sort_defs IndexFile_Get_def GetVersions_def Entries_lookup_def
      ChartVersions_Get_def fragment_defs)

section \<open>The behaviour of \<^verbatim>\<open>loadIndex\<close> on invalid entries\<close>

lemmas load_defs = loadIndex_def jsonOrYamlUnmarshal_def externals_fragment_def
  cleanup_step_def ignoreSkippableChartValidationError_def Validate_fragment_def
  empty_Metadata_def APIVersionV1_def

text \<open>
  Claim C4: parsing drops null entries and entries that fail validation, logging each
  skip. The code logs both skips and returns without error, but the returned index still
  holds both entries: the null entry is only logged (\<^verbatim>\<open>continue\<close>), and the shortened slice
  \<^verbatim>\<open>cvs\<close> is never stored back into \<^verbatim>\<open>i.Entries[name]\<close>.
\<close>

theorem loadIndex_keeps_invalid_entries:
  "loadIndex (externals_fragment decoded_invalid_entries Map.empty) [''bar'', ''foo''] [''foo'', ''bar'']
     ''{apiVersion: v1, entries: {bar: [{digest: abc}], foo: [null]}}'' ''index.yaml''
   = Returns
       (index_of
          [''bar'' \<mapsto> [Some (entry_without_metadata
                                \<lparr>Metadata := Some \<lparr>Name = [], Version = [], APIVersion = ''v1''\<rparr>\<rparr>)],
           ''foo'' \<mapsto> [None]],
        None,
        [SkipInvalidEntry ''bar'' [] ''index.yaml''
           (Some (ValidationError ''validation: chart.metadata.name is required'')),
         SkipEmptyEntry ''foo'' ''index.yaml''])"
  by (simp add: load_defs decoded_invalid_entries_def entry_without_metadata_def sort_defs
      fun_upd_twist)

text \<open>
  Claim C5: a document that decodes but has no API version comes back cleaned and sorted,
  together with \<^verbatim>\<open>ErrNoAPIVersion\<close>. On a document with two null entries under one chart
  name the code does not return: the null entries are still in the list when
  \<^verbatim>\<open>SortEntries\<close> runs, and \<^verbatim>\<open>Less\<close> dereferences one.
\<close>

theorem loadIndex_panics_on_null_entries:
  "loadIndex (externals_fragment decoded_null_entries Map.empty) [''foo''] [''foo'']
     ''{entries: {foo: [null, null]}}'' ''index.yaml''
   = Panic NilDereference"
  by (simp add: load_defs decoded_null_entries_def sort_defs)

text \<open>
  The cleanup never changes the length of a version list: whatever it drops from the
  local slice, the list in the index keeps every place.
\<close>

lemma cleanup_step_length:
  assumes "idx < len" and "len \<le> length arr"
    and "cleanup_step ext name source (arr, len, logs) idx = (arr', len', logs')"
  shows "length arr' = length arr \<and> idx \<le> len' \<and> len' \<le> length arr'"
  using assms
  by (auto simp: cleanup_step_def Let_def split: option.splits prod.splits if_splits)

lemma cleanup_loop_length:
  assumes "n \<le> len" and "len \<le> length arr"
    and "cleanup_loop ext name source (arr, len, logs) n = (arr', len', logs')"
  shows "length arr' = length arr"
  using assms
proof (induction n arbitrary: arr len logs)
  case 0
  then show ?case by simp
next
  case (Suc n)
  obtain arr1 len1 logs1 where
    step: "cleanup_step ext name source (arr, len, logs) n = (arr1, len1, logs1)"
    by (cases "cleanup_step ext name source (arr, len, logs) n") auto
  from Suc.prems(1,2) have "n < len" "len \<le> length arr" by simp_all
  from cleanup_step_length [OF this step]
  have l: "length arr1 = length arr" "n \<le> len1" "len1 \<le> length arr1" by simp_all
  from Suc.prems(3) step have "cleanup_loop ext name source (arr1, len1, logs1) n = (arr', len', logs')"
    by simp
  from Suc.IH [OF l(2,3) this] l(1) show ?case by simp
qed

lemma cleanup_entries_length:
  assumes "cleanup_entries ext source es ks logs = (es', logs')"
  shows "map_option length (es' k) = map_option length (es k)"
  using assms
proof (induction ks arbitrary: es logs)
  case Nil
  then show ?case by simp
next
  case (Cons name ks)
  show ?case
  proof (cases "es name")
    case None
    with Cons show ?thesis by simp
  next
    case (Some cvs)
    obtain arr len logs1 where
      loop: "cleanup_loop ext name source (cvs, length cvs, logs) (length cvs) = (arr, len, logs1)"
      by (cases "cleanup_loop ext name source (cvs, length cvs, logs) (length cvs)") auto
    then have "length arr = length cvs"
      using cleanup_loop_length [of "length cvs" "length cvs" cvs] by simp
    moreover from Cons.prems Some loop
    have "cleanup_entries ext source (es(name \<mapsto> arr)) ks logs1 = (es', logs')"
      by simp
    then have "map_option length (es' k) = map_option length ((es(name \<mapsto> arr)) k)"
      by (rule Cons.IH)
    ultimately show ?thesis using Some by (cases "k = name") simp_all
  qed
qed

text \<open>
  Where \<^verbatim>\<open>loadIndex\<close> returns on a document without API version, it returns the index
  with \<^verbatim>\<open>ErrNoAPIVersion\<close>.
\<close>

lemma SortEntries_IndexAPIVersion:
  "SortEntries large sv ks i = Returns i' \<Longrightarrow> IndexAPIVersion i' = IndexAPIVersion i"
  by (auto simp: SortEntries_def split: option.splits outcome.splits)

lemma loadIndex_no_apiVersion:
  assumes "data \<noteq> []"
    and "jsonOrYamlUnmarshal ext data = (i, None)"
    and "IndexAPIVersion i = []"
  shows "(\<exists>p. loadIndex ext ks ks' data source = Panic p)
       \<or> (\<exists>i' logs. loadIndex ext ks ks' data source = Returns (i', Some ErrNoAPIVersion, logs))"
proof -
  obtain i1 logs where c:
    "(case Entries i of
        None \<Rightarrow> (i, [])
      | Some es \<Rightarrow>
          (case cleanup_entries ext source es ks [] of
             (es', logs) \<Rightarrow> (i\<lparr>Entries := Some es'\<rparr>, logs))) = (i1, logs)"
    by (cases "case Entries i of
        None \<Rightarrow> (i, [])
      | Some es \<Rightarrow>
          (case cleanup_entries ext source es ks [] of
             (es', logs) \<Rightarrow> (i\<lparr>Entries := Some es'\<rparr>, logs))") auto
  then have a: "IndexAPIVersion i1 = []"
    using assms(3) by (auto split: option.splits prod.splits)
  show ?thesis
  proof (cases "SortEntries (pdqsort_large ext) (semver_lib ext) ks' i1")
    case (Panic p)
    with assms(1,2) c show ?thesis by (simp add: loadIndex_def)
  next
    case (Returns i2)
    with a have "IndexAPIVersion i2 = []"
      using SortEntries_IndexAPIVersion by fastforce
    with Returns assms(1,2) c show ?thesis by (simp add: loadIndex_def)
  qed
qed

section \<open>The idempotence of \<^verbatim>\<open>IndexFile.Merge\<close>\<close>

lemma constraint_match_append:
  "constraint_match sv k vs = Returns (Some e) \<Longrightarrow>
   constraint_match sv k (vs @ ws) = Returns (Some e)"
proof (induction vs)
  case Nil
  then show ?case by simp
next
  case (Cons ver vs)
  then show ?case
    by (cases "Version_of ver") (auto split: option.splits if_splits)
qed

lemma constraint_match_readable:
  assumes "list_all has_metadata vs"
  shows "\<exists>r. constraint_match sv (Some k) vs = Returns r"
  using assms
proof (induction vs)
  case Nil
  then show ?case by simp
next
  case (Cons ver vs)
  then obtain v where "Version_of ver = Returns v"
    using Version_of_has_metadata by auto
  with Cons show ?case by (auto split: option.splits)
qed

lemma find_append_None:
  "find P (vs @ ws) = None \<Longrightarrow> find P vs = None"
  by (auto simp: find_None_iff)

lemma Get_append:
  assumes wf: "list_all has_metadata (vs @ ws)"
    and g: "ChartVersions_Get sv vs n v = Returns (Inr e)"
  shows "\<exists>e'. ChartVersions_Get sv (vs @ ws) n v = Returns (Inr e')"
proof -
  from wf have wfv: "list_all has_metadata vs" by simp
  let ?P = "\<lambda>ver. Version_of ver = Returns v"
  have ea: "exact_match v (vs @ ws) = Returns (case find ?P (vs @ ws) of None \<Rightarrow> None | Some ver \<Rightarrow> ver)"
    using wf by (rule exact_match_find)
  have ev: "exact_match v vs = Returns (case find ?P vs of None \<Rightarrow> None | Some ver \<Rightarrow> ver)"
    using wfv by (rule exact_match_find)
  have some: "\<exists>c. ver = Some c" if "find ?P xs = Some ver" for xs ver
  proof -
    from that have "Version_of ver = Returns v" by (auto simp: find_Some_iff)
    then show ?thesis by (rule Version_of_Returns_Some)
  qed
  from g have nc: "\<not> (v \<noteq> [] \<and> NewConstraint sv v = None)"
    by (auto simp: ChartVersions_Get_def split: if_splits)
  let ?k = "if v = [] then NewConstraint sv ''*'' else NewConstraint sv v"
  show ?thesis
  proof (cases "v \<noteq> [] \<and> find ?P (vs @ ws) \<noteq> None")
    case True
    then obtain ver where f: "find ?P (vs @ ws) = Some ver" by auto
    with some obtain c where "ver = Some c" by blast
    with True f ea nc show ?thesis
      by (simp add: ChartVersions_Get_def)
  next
    case False
    then have none: "v = [] \<or> find ?P vs = None"
      using find_append_None [of ?P vs ws] by auto
    with g ev nc have "constraint_match sv ?k vs = Returns (Some e)"
      by (auto simp: ChartVersions_Get_def Let_def split: if_splits outcome.splits option.splits)
    then have "constraint_match sv ?k (vs @ ws) = Returns (Some e)"
      by (rule constraint_match_append)
    with False ea nc show ?thesis
      by (auto simp: ChartVersions_Get_def Let_def)
  qed
qed

lemma Get_finds_exact:
  assumes "v \<noteq> []" and "NewConstraint sv v \<noteq> None" and "list_all has_metadata c"
    and "ver \<in> set c" and "Version_of ver = Returns v"
  shows "\<exists>e. ChartVersions_Get sv c n v = Returns (Inr e)"
proof -
  let ?P = "\<lambda>ver. Version_of ver = Returns v"
  from assms(4,5) obtain w where f: "find ?P c = Some w"
    by (cases "find ?P c") (auto simp: find_None_iff)
  then have "Version_of w = Returns v" by (auto simp: find_Some_iff)
  then obtain e where "w = Some e" using Version_of_Returns_Some [of w v] by auto
  with f exact_match_find [OF assms(3), of v] assms(1,2) show ?thesis
    by (simp add: ChartVersions_Get_def)
qed

lemma Get_readable:
  assumes "v \<noteq> []" and "NewConstraint sv v \<noteq> None" and "list_all has_metadata c"
  shows "\<exists>r. ChartVersions_Get sv c n v = Returns r"
proof -
  from assms(2) obtain k where k: "NewConstraint sv v = Some k" by auto
  from constraint_match_readable [OF assms(3), of sv k]
  obtain r where "constraint_match sv (Some k) c = Returns r" by auto
  with assms(1) k exact_match_find [OF assms(3), of v] show ?thesis
    by (auto simp: ChartVersions_Get_def split: option.splits)
qed

lemma Entries_lookup_appended:
  assumes "Entries i \<noteq> None"
  shows "Entries_lookup (appended i name cv) k
           = (if k = name
              then Some ((case Entries_lookup i name of None \<Rightarrow> [] | Some e \<Rightarrow> e) @ [cv])
              else Entries_lookup i k)"
  using assms by (auto simp: appended_def Entries_lookup_def)

lemma readable_appended:
  assumes "readable i" and "has_metadata cv" and "Entries i \<noteq> None"
  shows "readable (appended i name cv)"
  unfolding readable_def
proof (intro allI impI)
  fix k cvs
  assume l: "Entries_lookup (appended i name cv) k = Some cvs"
  show "list_all has_metadata cvs"
  proof (cases "k = name")
    case True
    with l assms(3) have cvs: "cvs = (case Entries_lookup i name of None \<Rightarrow> [] | Some e \<Rightarrow> e) @ [cv]"
      by (simp add: Entries_lookup_appended)
    show ?thesis
    proof (cases "Entries_lookup i name")
      case None
      with cvs assms(2) show ?thesis by simp
    next
      case (Some e)
      with assms(1) have "list_all has_metadata e" by (simp add: readable_def)
      with cvs Some assms(2) show ?thesis by simp
    qed
  next
    case False
    with l assms(3) have "Entries_lookup i k = Some cvs"
      by (simp add: Entries_lookup_appended)
    with assms(1) show ?thesis by (simp add: readable_def)
  qed
qed

lemma Has_appended_mono:
  assumes r: "readable i" and m: "has_metadata cv" and e: "Entries i \<noteq> None"
    and h: "Has sv i n v = Returns True"
  shows "Has sv (appended i name cv) n v = Returns True"
proof -
  from h obtain vs x where vs: "Entries_lookup i n = Some vs" "vs \<noteq> []"
    and g: "ChartVersions_Get sv vs n v = Returns (Inr x)"
    by (auto simp: Has_def IndexFile_Get_def GetVersions_def
        split: option.splits if_splits outcome.splits sum.splits)
  show ?thesis
  proof (cases "n = name")
    case True
    with vs e have l: "Entries_lookup (appended i name cv) n = Some (vs @ [cv])"
      by (simp add: Entries_lookup_appended)
    from r vs(1) have "list_all has_metadata vs" by (simp add: readable_def)
    with m have "list_all has_metadata (vs @ [cv])" by simp
    from Get_append [OF this g] obtain x' where
      "ChartVersions_Get sv (vs @ [cv]) n v = Returns (Inr x')" by auto
    with l show ?thesis
      by (simp add: Has_def IndexFile_Get_def GetVersions_def)
  next
    case False
    with vs e have "Entries_lookup (appended i name cv) n = Some vs"
      by (simp add: Entries_lookup_appended)
    with vs g show ?thesis
      by (simp add: Has_def IndexFile_Get_def GetVersions_def)
  qed
qed

lemma present_appended_mono:
  assumes "readable i" and "has_metadata cv" and "Entries i \<noteq> None" and "present sv i x"
  shows "present sv (appended i name cv) x"
  using assms Has_appended_mono [OF assms(1,2,3)]
  by (auto simp: present_def split: option.splits)

lemma mergeable_has_metadata: "mergeable sv cv \<Longrightarrow> has_metadata cv"
  by (auto simp: mergeable_def has_metadata_def split: option.splits)

lemma present_appended_self:
  assumes r: "readable i" and e: "Entries i \<noteq> None"
    and m: "mergeable sv (Some c)" and md: "Metadata c = Some md"
  shows "present sv (appended i (Name md) (Some c)) (Some c)"
proof -
  let ?old = "case Entries_lookup i (Name md) of None \<Rightarrow> [] | Some e \<Rightarrow> e"
  from e have l: "Entries_lookup (appended i (Name md) (Some c)) (Name md) = Some (?old @ [Some c])"
    by (simp add: Entries_lookup_appended)
  from m have hm: "has_metadata (Some c)" by (rule mergeable_has_metadata)
  have "readable (appended i (Name md) (Some c))"
    using r hm e by (rule readable_appended)
  then have "list_all has_metadata (?old @ [Some c])"
    unfolding readable_def using l by blast
  then have wf: "list_all has_metadata (?old @ [Some c])" .
  from m md have v: "Version md \<noteq> []" "NewConstraint sv (Version md) \<noteq> None"
    by (simp_all add: mergeable_def)
  have "Version_of (Some c) = Returns (Version md)"
    using md by (simp add: Version_of_def)
  from Get_finds_exact [OF v wf _ this, of "Name md"]
  obtain x where "ChartVersions_Get sv (?old @ [Some c]) (Name md) (Version md) = Returns (Inr x)"
    by auto
  with l md show ?thesis
    by (simp add: present_def Has_def IndexFile_Get_def GetVersions_def)
qed

lemma Has_readable:
  assumes "readable i" and "v \<noteq> []" and "NewConstraint sv v \<noteq> None"
  shows "\<exists>b. Has sv i n v = Returns b"
proof (cases "GetVersions i n")
  case (Inl err)
  then have "Has sv i n v = Returns False" by (simp add: Has_def IndexFile_Get_def)
  then show ?thesis by blast
next
  case (Inr vs)
  then have "Entries_lookup i n = Some vs"
    by (auto simp: GetVersions_def split: option.splits if_splits)
  with assms(1) have "list_all has_metadata vs" by (simp add: readable_def)
  from Get_readable [OF assms(2,3) this, of n] obtain r where
    "ChartVersions_Get sv vs n v = Returns r" by auto
  with Inr have "Has sv i n v = Returns (case r of Inl err \<Rightarrow> False | Inr x \<Rightarrow> True)"
    by (cases r) (simp_all add: Has_def IndexFile_Get_def)
  then show ?thesis by blast
qed

lemma Merge_versions_noop:
  assumes "\<forall>cv \<in> set cvs. present sv (h a) cv"
  shows "Merge_versions sv h a cvs = Returns h"
  using assms
proof (induction cvs)
  case Nil
  then show ?case by simp
next
  case (Cons cv cvs)
  then have "present sv (h a) cv" by simp
  then obtain c md where "cv = Some c" "Metadata c = Some md"
    "Has sv (h a) (Name md) (Version md) = Returns True"
    by (auto simp: present_def split: option.splits)
  with Cons show ?case by simp
qed

lemma Merge_range_noop:
  assumes "\<forall>k cvs. Entries_lookup (h f) k = Some cvs \<longrightarrow> (\<forall>cv \<in> set cvs. present sv (h a) cv)"
  shows "Merge_range sv h a f ks = Returns h"
proof (induction ks)
  case Nil
  then show ?case by simp
next
  case (Cons k ks)
  show ?case
  proof (cases "Entries_lookup (h f) k")
    case None
    with Cons show ?thesis by simp
  next
    case (Some cvs)
    with assms have "\<forall>cv \<in> set cvs. present sv (h a) cv" by blast
    then have "Merge_versions sv h a cvs = Returns h" by (rule Merge_versions_noop)
    with Some Cons show ?thesis by simp
  qed
qed

lemma Merge_versions_adds:
  assumes "readable (h a)" and "Entries (h a) \<noteq> None" and "list_all (mergeable sv) cvs"
  shows "\<exists>h'. Merge_versions sv h a cvs = Returns h'
           \<and> readable (h' a) \<and> Entries (h' a) \<noteq> None
           \<and> (\<forall>x. x \<noteq> a \<longrightarrow> h' x = h x)
           \<and> (\<forall>cv \<in> set cvs. present sv (h' a) cv)
           \<and> (\<forall>x. present sv (h a) x \<longrightarrow> present sv (h' a) x)"
  using assms
proof (induction cvs arbitrary: h)
  case Nil
  then show ?case by simp
next
  case (Cons cv cvs)
  from Cons.prems(3) have m: "mergeable sv cv" and ms: "list_all (mergeable sv) cvs"
    by simp_all
  from m obtain c md where c: "cv = Some c" "Metadata c = Some md"
    and v: "Version md \<noteq> []" "NewConstraint sv (Version md) \<noteq> None"
    by (auto simp: mergeable_def split: option.splits)
  from Has_readable [OF Cons.prems(1) v, of "Name md"]
  obtain b where b: "Has sv (h a) (Name md) (Version md) = Returns b" by auto
  show ?case
  proof (cases b)
    case True
    with b c have here: "present sv (h a) cv" by (simp add: present_def)
    from Cons.IH [of h, OF Cons.prems(1,2) ms]
    obtain h' where h': "Merge_versions sv h a cvs = Returns h'"
      "readable (h' a)" "Entries (h' a) \<noteq> None" "\<forall>x. x \<noteq> a \<longrightarrow> h' x = h x"
      "\<forall>cv \<in> set cvs. present sv (h' a) cv" "\<forall>x. present sv (h a) x \<longrightarrow> present sv (h' a) x"
      by blast
    from True b c h'(1) have "Merge_versions sv h a (cv # cvs) = Returns h'" by simp
    with h' here show ?thesis by auto
  next
    case False
    let ?i = "appended (h a) (Name md) cv"
    let ?h = "h(a := ?i)"
    from Cons.prems(2) obtain es where es: "Entries (h a) = Some es" by auto
    from False b c es have step:
      "Merge_versions sv h a (cv # cvs) = Merge_versions sv ?h a cvs"
      by (simp add: appended_def)
    from m have hm: "has_metadata cv" by (rule mergeable_has_metadata)
    have r: "readable (?h a)"
      using readable_appended [OF Cons.prems(1) hm Cons.prems(2)] by simp
    have e: "Entries (?h a) \<noteq> None"
      using es by (simp add: appended_def)
    from Cons.IH [of ?h, OF r e ms]
    obtain h' where h': "Merge_versions sv ?h a cvs = Returns h'"
      "readable (h' a)" "Entries (h' a) \<noteq> None" "\<forall>x. x \<noteq> a \<longrightarrow> h' x = ?h x"
      "\<forall>cv \<in> set cvs. present sv (h' a) cv" "\<forall>x. present sv (?h a) x \<longrightarrow> present sv (h' a) x"
      by blast
    have self: "present sv (?h a) cv"
      using present_appended_self [OF Cons.prems(1,2) m [unfolded c(1)] c(2)] c(1) by simp
    have mono: "present sv (?h a) x" if "present sv (h a) x" for x
      using present_appended_mono [OF Cons.prems(1) hm Cons.prems(2) that] by simp
    from h' self mono step show ?thesis by auto
  qed
qed

lemma Merge_range_adds:
  assumes "a \<noteq> f" and "readable (h a)" and "Entries (h a) \<noteq> None"
    and "\<forall>k cvs. Entries_lookup (h f) k = Some cvs \<longrightarrow> list_all (mergeable sv) cvs"
  shows "\<exists>h'. Merge_range sv h a f ks = Returns h'
           \<and> readable (h' a) \<and> Entries (h' a) \<noteq> None \<and> h' f = h f
           \<and> (\<forall>k \<in> set ks. \<forall>cvs. Entries_lookup (h f) k = Some cvs \<longrightarrow>
                  (\<forall>cv \<in> set cvs. present sv (h' a) cv))
           \<and> (\<forall>x. present sv (h a) x \<longrightarrow> present sv (h' a) x)"
  using assms(2,3,4)
proof (induction ks arbitrary: h)
  case Nil
  then show ?case by simp
next
  case (Cons k ks)
  show ?case
  proof (cases "Entries_lookup (h f) k")
    case None
    from Cons.IH [of h, OF Cons.prems]
    obtain h' where h': "Merge_range sv h a f ks = Returns h'"
      "readable (h' a)" "Entries (h' a) \<noteq> None" "h' f = h f"
      "\<forall>k \<in> set ks. \<forall>cvs. Entries_lookup (h f) k = Some cvs \<longrightarrow>
          (\<forall>cv \<in> set cvs. present sv (h' a) cv)"
      "\<forall>x. present sv (h a) x \<longrightarrow> present sv (h' a) x"
      by blast
    with None show ?thesis by auto
  next
    case (Some cvs)
    with Cons.prems(3) have ms: "list_all (mergeable sv) cvs" by blast
    from Merge_versions_adds [where h = h and a = a, OF Cons.prems(1,2) ms]
    obtain h1 where h1: "Merge_versions sv h a cvs = Returns h1"
      "readable (h1 a)" "Entries (h1 a) \<noteq> None" "\<forall>x. x \<noteq> a \<longrightarrow> h1 x = h x"
      "\<forall>cv \<in> set cvs. present sv (h1 a) cv" "\<forall>x. present sv (h a) x \<longrightarrow> present sv (h1 a) x"
      by blast
    from h1(4) assms(1) have f: "h1 f = h f" by simp
    with Cons.prems(3) have
      "\<forall>k cvs. Entries_lookup (h1 f) k = Some cvs \<longrightarrow> list_all (mergeable sv) cvs"
      by simp
    from Cons.IH [of h1, OF h1(2,3) this]
    obtain h' where h': "Merge_range sv h1 a f ks = Returns h'"
      "readable (h' a)" "Entries (h' a) \<noteq> None" "h' f = h1 f"
      "\<forall>k \<in> set ks. \<forall>cvs. Entries_lookup (h1 f) k = Some cvs \<longrightarrow>
          (\<forall>cv \<in> set cvs. present sv (h' a) cv)"
      "\<forall>x. present sv (h1 a) x \<longrightarrow> present sv (h' a) x"
      by blast
    from Some h1(1) h'(1) have "Merge_range sv h a f (k # ks) = Returns h'" by simp
    moreover have "\<forall>cv \<in> set cvs. present sv (h' a) cv"
      using h1(5) h'(6) by blast
    ultimately show ?thesis
      using h' h1 f Some by auto
  qed
qed

lemma keyed_by_present:
  assumes l: "Entries_lookup i k = Some cvs"
    and kb: "list_all (keyed_by sv k) cvs"
    and cv: "cv \<in> set cvs"
  shows "present sv i cv"
proof -
  from kb cv have k: "keyed_by sv k cv" by (simp add: list_all_iff)
  then obtain c md where c: "cv = Some c" "Metadata c = Some md" "Name md = k"
    and v: "Version md \<noteq> []" "NewConstraint sv (Version md) \<noteq> None"
    by (auto simp: keyed_by_def mergeable_def split: option.splits)
  from kb have wf: "list_all has_metadata cvs"
    by (auto simp: list_all_iff keyed_by_def intro: mergeable_has_metadata)
  have "Version_of cv = Returns (Version md)"
    using c by (simp add: Version_of_def)
  from Get_finds_exact [OF v wf cv this, of k]
  obtain e where "ChartVersions_Get sv cvs k (Version md) = Returns (Inr e)" by auto
  moreover from cv have "cvs \<noteq> []" by auto
  ultimately show ?thesis
    using l c by (simp add: present_def Has_def IndexFile_Get_def GetVersions_def)
qed

text \<open>
  Claim C6, as amended. (1) An index all of whose entries are stored under their own chart
  name, are not nil, have metadata and carry a version string that is not empty and parses
  as a constraint, is unchanged by a merge into itself, in whatever order the chart names
  are visited. (2) For two distinct indices, the receiver with an initialised entries map
  and entries that can be read, the argument with entries that are not nil, have metadata
  and a non-empty version that parses as a constraint: the merge returns, and a second
  merge of the same argument leaves the result of the first unchanged, in whatever order
  it visits the chart names.
\<close>

theorem Merge_idempotent:
  "((\<forall>k cvs. Entries_lookup (h a) k = Some cvs \<longrightarrow> list_all (keyed_by sv k) cvs)
      \<longrightarrow> Merge sv ks h a a = Returns h)
   \<and> (a \<noteq> f \<and> readable (h a) \<and> Entries (h a) \<noteq> None
       \<and> (\<forall>k cvs. Entries_lookup (h f) k = Some cvs \<longrightarrow>
             k \<in> set ks \<and> list_all (mergeable sv) cvs)
      \<longrightarrow> (\<exists>h'. Merge sv ks h a f = Returns h' \<and> Merge sv ks' h' a f = Returns h'))"
proof (intro conjI impI)
  assume "\<forall>k cvs. Entries_lookup (h a) k = Some cvs \<longrightarrow> list_all (keyed_by sv k) cvs"
  then have "\<forall>k cvs. Entries_lookup (h a) k = Some cvs \<longrightarrow> (\<forall>cv \<in> set cvs. present sv (h a) cv)"
    using keyed_by_present by blast
  then show "Merge sv ks h a a = Returns h"
    unfolding Merge_def by (rule Merge_range_noop)
next
  assume p: "a \<noteq> f \<and> readable (h a) \<and> Entries (h a) \<noteq> None
       \<and> (\<forall>k cvs. Entries_lookup (h f) k = Some cvs \<longrightarrow>
             k \<in> set ks \<and> list_all (mergeable sv) cvs)"
  then have a: "a \<noteq> f" "readable (h a)" "Entries (h a) \<noteq> None"
    and m: "\<forall>k cvs. Entries_lookup (h f) k = Some cvs \<longrightarrow> list_all (mergeable sv) cvs"
    and d: "\<forall>k cvs. Entries_lookup (h f) k = Some cvs \<longrightarrow> k \<in> set ks"
    by blast+
  from Merge_range_adds [where h = h and a = a, OF a m, of ks]
  obtain h' where h': "Merge_range sv h a f ks = Returns h'" "h' f = h f"
    "\<forall>k \<in> set ks. \<forall>cvs. Entries_lookup (h f) k = Some cvs \<longrightarrow>
        (\<forall>cv \<in> set cvs. present sv (h' a) cv)"
    by blast
  from h'(2,3) d have
    "\<forall>k cvs. Entries_lookup (h' f) k = Some cvs \<longrightarrow> (\<forall>cv \<in> set cvs. present sv (h' a) cv)"
    by simp blast
  then have "Merge_range sv h' a f ks' = Returns h'"
    by (rule Merge_range_noop)
  with h'(1) show "\<exists>h'. Merge sv ks h a f = Returns h' \<and> Merge sv ks' h' a f = Returns h'"
    by (auto simp: Merge_def)
qed

lemmas merge_defs = Merge_def Has_def IndexFile_Get_def GetVersions_def Entries_lookup_def
  ChartVersions_Get_def Version_of_def entry_of_def index_of_def store_of_def

text \<open>
  Claim C6 as stated fails for an index that holds an entry under a key other than the
  entry's chart name, which parsing accepts: \<^verbatim>\<open>Merge\<close> looks the entry up under its own
  name, does not find it, and appends it there. Merged into itself, the index with the
  entry \<^verbatim>\<open>mychart\<close> \<^verbatim>\<open>1.0.0\<close> under the key \<^verbatim>\<open>alias\<close> gains the key \<^verbatim>\<open>mychart\<close>.
\<close>

theorem Merge_into_itself_counterexample:
  "Merge semver_fragment [''alias'']
     (store_of (index_of [''alias'' \<mapsto> [Some (entry_of ''mychart'' ''1.0.0'')]]) empty_IndexFile)
     0 0
   = Returns
       ((store_of (index_of [''alias'' \<mapsto> [Some (entry_of ''mychart'' ''1.0.0'')]]) empty_IndexFile)
          (0 := index_of [''alias'' \<mapsto> [Some (entry_of ''mychart'' ''1.0.0'')],
                          ''mychart'' \<mapsto> [Some (entry_of ''mychart'' ''1.0.0'')]]))"
  by (simp add: merge_defs fragment_defs)

text \<open>
  The same happens, under the entry's own name, to an entry whose version string does not
  parse as a constraint: \<^verbatim>\<open>Has\<close> reports it absent at every merge.
\<close>

lemma Merge_appends_unparseable_again:
  "Merge semver_fragment [''mychart'']
     (store_of (index_of [''mychart'' \<mapsto> [Some (entry_of ''mychart'' ''latest'')]]) empty_IndexFile)
     0 0
   = Returns
       ((store_of (index_of [''mychart'' \<mapsto> [Some (entry_of ''mychart'' ''latest'')]]) empty_IndexFile)
          (0 := index_of [''mychart'' \<mapsto> [Some (entry_of ''mychart'' ''latest''),
                                         Some (entry_of ''mychart'' ''latest'')]]))"
  by (simp add: merge_defs fragment_defs)

text \<open>
  The theorem at two indices: the first merged into itself is unchanged; the second merged
  into the first adds the release \<^verbatim>\<open>2.0.0\<close> and not the second copy of \<^verbatim>\<open>1.0.0\<close>, and
  merging it again changes nothing.
\<close>

theorem Merge_idempotent_witness:
  "Merge semver_fragment [''mychart'']
     (store_of (index_of [''mychart'' \<mapsto> [Some (entry_of ''mychart'' ''1.0.0'')]])
               (index_of [''mychart'' \<mapsto> [Some ((entry_of ''mychart'' ''1.0.0'')\<lparr>Digest := ''b''\<rparr>),
                                              Some (entry_of ''mychart'' ''2.0.0'')]]))
     0 0
   = Returns
       (store_of (index_of [''mychart'' \<mapsto> [Some (entry_of ''mychart'' ''1.0.0'')]])
               (index_of [''mychart'' \<mapsto> [Some ((entry_of ''mychart'' ''1.0.0'')\<lparr>Digest := ''b''\<rparr>),
                                              Some (entry_of ''mychart'' ''2.0.0'')]]))
   \<and> (\<exists>h'. Merge semver_fragment [''mychart'']
              (store_of (index_of [''mychart'' \<mapsto> [Some (entry_of ''mychart'' ''1.0.0'')]])
                 (index_of [''mychart'' \<mapsto> [Some ((entry_of ''mychart'' ''1.0.0'')\<lparr>Digest := ''b''\<rparr>),
                                                Some (entry_of ''mychart'' ''2.0.0'')]]))
              0 1
            = Returns h'
          \<and> Merge semver_fragment [] h' 0 1 = Returns h'
          \<and> Merge semver_fragment [''mychart''] h' 0 1 = Returns h'
          \<and> Entries_lookup (h' 0) ''mychart''
              = Some [Some (entry_of ''mychart'' ''1.0.0''), Some (entry_of ''mychart'' ''2.0.0'')])"
proof -
  let ?A = "index_of [''mychart'' \<mapsto> [Some (entry_of ''mychart'' ''1.0.0'')]]"
  let ?B = "index_of [''mychart'' \<mapsto> [Some ((entry_of ''mychart'' ''1.0.0'')\<lparr>Digest := ''b''\<rparr>),
                                         Some (entry_of ''mychart'' ''2.0.0'')]]"
  let ?h = "store_of ?A ?B"
  have k: "\<forall>k cvs. Entries_lookup (?h 0) k = Some cvs \<longrightarrow> list_all (keyed_by semver_fragment k) cvs"
    by (auto simp: store_of_def index_of_def Entries_lookup_def keyed_by_def mergeable_def
        entry_of_def fragment_defs split: if_splits)
  have p: "(0::nat) \<noteq> 1 \<and> readable (?h 0) \<and> Entries (?h 0) \<noteq> None
       \<and> (\<forall>k cvs. Entries_lookup (?h 1) k = Some cvs \<longrightarrow>
             k \<in> set [''mychart''] \<and> list_all (mergeable semver_fragment) cvs)"
    by (auto simp: store_of_def index_of_def Entries_lookup_def readable_def has_metadata_def
        mergeable_def entry_of_def fragment_defs split: if_splits)
  note t = Merge_idempotent [of ?h 0 semver_fragment "[''mychart'']" 1]
  from t [of "[]", THEN conjunct1] k
  have self: "Merge semver_fragment [''mychart''] ?h 0 0 = Returns ?h" by blast
  from t [of "[]", THEN conjunct2] p
  obtain h1 where h1: "Merge semver_fragment [''mychart''] ?h 0 1 = Returns h1"
    "Merge semver_fragment [] h1 0 1 = Returns h1" by blast
  from t [of "[''mychart'']", THEN conjunct2] p
  obtain h2 where h2: "Merge semver_fragment [''mychart''] ?h 0 1 = Returns h2"
    "Merge semver_fragment [''mychart''] h2 0 1 = Returns h2" by blast
  have "Merge semver_fragment [''mychart''] ?h 0 1
          = Returns (?h(0 := index_of [''mychart'' \<mapsto>
               [Some (entry_of ''mychart'' ''1.0.0''), Some (entry_of ''mychart'' ''2.0.0'')]]))"
    by (simp add: merge_defs fragment_defs)
  with h1(1) have "Entries_lookup (h1 0) ''mychart''
      = Some [Some (entry_of ''mychart'' ''1.0.0''), Some (entry_of ''mychart'' ''2.0.0'')]"
    by (auto simp: Entries_lookup_def index_of_def)
  moreover from h1(1) h2(1) have "h2 = h1" by simp
  ultimately show ?thesis
    using self h1 h2 by blast
qed

section \<open>Properties of the repository registry\<close>

lemma separator_at:
  "(take (Suc 0) (drop i ref) = ''/'') = (i < length ref \<and> ref ! i = CHR ''/'')"
proof (cases "i < length ref")
  case True
  then have "drop i ref = ref ! i # drop (Suc i) ref"
    by (simp add: Cons_nth_drop_Suc)
  with True show ?thesis by simp
next
  case False
  then show ?thesis by simp
qed

lemma LastIndex_separator:
  "LastIndex ref ''/'' =
     (case filter (\<lambda>i. i < length ref \<and> ref ! i = CHR ''/'') (rev [0..<Suc (length ref)]) of
        [] \<Rightarrow> - 1
      | i # _ \<Rightarrow> int i)"
  by (simp add: LastIndex_def separator_at del: upt_Suc)

lemma filter_rev_upt_last:
  assumes "Q j" and "j < n" and "\<forall>i. j < i \<and> i < n \<longrightarrow> \<not> Q i"
  shows "filter Q (rev [0..<n]) = j # rev (filter Q [0..<j])"
proof -
  have "[0..<j + (n - j)] = [0..<j] @ [j..<j + (n - j)]"
    by (rule upt_add_eq_append) simp
  moreover from assms(2) have "j + (n - j) = n" by simp
  ultimately have a: "[0..<n] = [0..<j] @ [j..<n]" by (simp only:)
  from assms(2) have b: "[j..<n] = j # [Suc j..<n]" by (rule upt_conv_Cons)
  have split: "[0..<n] = [0..<j] @ j # [Suc j..<n]"
    by (subst a, subst b, rule refl)
  have "filter Q [Suc j..<n] = []"
    using assms(3) by (auto simp: filter_empty_conv)
  with assms(1) have "filter Q [0..<n] = filter Q [0..<j] @ [j]"
    by (simp only: split) simp
  then have "rev (filter Q [0..<n]) = j # rev (filter Q [0..<j])"
    by simp
  then show ?thesis by (simp only: rev_filter)
qed

lemma LastIndex_none:
  assumes "CHR ''/'' \<notin> set ref"
  shows "LastIndex ref ''/'' = - 1"
proof -
  have "\<not> (i < length ref \<and> ref ! i = CHR ''/'')" for i
  proof
    assume "i < length ref \<and> ref ! i = CHR ''/''"
    then have "CHR ''/'' \<in> set ref" by (metis nth_mem)
    with assms show False by simp
  qed
  then have "filter (\<lambda>i. i < length ref \<and> ref ! i = CHR ''/'') (rev [0..<Suc (length ref)]) = []"
    by (simp add: filter_empty_conv)
  then show ?thesis by (simp only: LastIndex_separator list.case)
qed

lemma LastIndex_last:
  assumes "CHR ''/'' \<notin> set s"
  shows "LastIndex (p @ ''/'' @ s) ''/'' = int (length p)"
proof -
  let ?ref = "p @ ''/'' @ s"
  let ?Q = "\<lambda>i. i < length ?ref \<and> ?ref ! i = CHR ''/''"
  have at: "?Q (length p)"
    by (simp add: nth_append)
  have lt: "length p < Suc (length ?ref)" by simp
  have after: "\<forall>i. length p < i \<and> i < Suc (length ?ref) \<longrightarrow> \<not> ?Q i"
  proof (intro allI impI notI)
    fix i
    assume i: "length p < i \<and> i < Suc (length ?ref)" and q: "?Q i"
    from i have "?ref ! i = (CHR ''/'' # s) ! (i - length p)"
      by (simp add: nth_append)
    also from i have "\<dots> = s ! (i - length p - 1)"
      by (simp add: nth_Cons')
    finally have r: "?ref ! i = s ! (i - length p - 1)" .
    from i q have "i - length p - 1 < length s" by auto
    then have "s ! (i - length p - 1) \<in> set s" by (rule nth_mem)
    with r q have "CHR ''/'' \<in> set s" by simp
    with assms show False by simp
  qed
  from filter_rev_upt_last [of ?Q "length p" "Suc (length ?ref)", OF at lt after]
  show ?thesis
    by (simp only: LastIndex_separator list.case)
qed

lemmas registry_defs =
  CanonicalizeRepoName_def getInfoByURL_def GetInfoByURL_def getInfoByF_def getInfo_def
  HasPrefix_def TrimPrefix_def externals_fragment_def registry_stable_def registry_taken_def

text \<open>
  Claim C9. \<^verbatim>\<open>GetForRef\<close> splits a combined chart reference at its last \<^verbatim>\<open>/\<close> and
  canonicalizes what stands before it: a reference with no \<^verbatim>\<open>/\<close>, and a reference whose only
  \<^verbatim>\<open>/\<close> is its first character, resolve to the empty name and leave the registry as it is;
  a reference \<open>p/s\<close> with \<open>p\<close> not empty and no \<^verbatim>\<open>/\<close> in \<open>s\<close> resolves to what
  \<^verbatim>\<open>CanonicalizeRepoName\<close> returns for \<open>p\<close>.
\<close>

theorem GetForRef_splits_on_last_separator:
  "(CHR ''/'' \<notin> set ref \<longrightarrow> GetForRef ext ks c ref = ([], c))
   \<and> (\<forall>s. ref = ''/'' @ s \<and> CHR ''/'' \<notin> set s \<longrightarrow> GetForRef ext ks c ref = ([], c))
   \<and> (\<forall>p s. ref = p @ ''/'' @ s \<and> p \<noteq> [] \<and> CHR ''/'' \<notin> set s \<longrightarrow>
          GetForRef ext ks c ref = CanonicalizeRepoName ext ks c p)"
proof (intro conjI allI impI)
  assume "CHR ''/'' \<notin> set ref"
  then show "GetForRef ext ks c ref = ([], c)"
    by (simp add: GetForRef_def LastIndex_none)
next
  fix s
  assume "ref = ''/'' @ s \<and> CHR ''/'' \<notin> set s"
  then have "LastIndex ref ''/'' = 0"
    using LastIndex_last [of s "[]"] by simp
  then show "GetForRef ext ks c ref = ([], c)"
    by (simp add: GetForRef_def)
next
  fix p s
  assume a: "ref = p @ ''/'' @ s \<and> p \<noteq> [] \<and> CHR ''/'' \<notin> set s"
  then have "LastIndex ref ''/'' = int (length p)"
    using LastIndex_last [of s p] by simp
  with a show "GetForRef ext ks c ref = CanonicalizeRepoName ext ks c p"
    by (simp add: GetForRef_def)
qed

text \<open>
  The theorem at the registry with the repository \<^verbatim>\<open>stable\<close>: \<^verbatim>\<open>stable/mychart\<close> resolves to
  \<^verbatim>\<open>stable\<close>, \<^verbatim>\<open>mychart\<close> and \<^verbatim>\<open>/mychart\<close> to the empty name.
\<close>

theorem GetForRef_splits_on_last_separator_witness:
  "GetForRef (externals_fragment empty_IndexFile Map.empty) [''stable''] registry_stable ''stable/mychart''
     = (''stable'', registry_stable)
   \<and> GetForRef (externals_fragment empty_IndexFile Map.empty) [''stable''] registry_stable ''mychart''
     = ([], registry_stable)
   \<and> GetForRef (externals_fragment empty_IndexFile Map.empty) [''stable''] registry_stable ''/mychart''
     = ([], registry_stable)"
proof (intro conjI)
  show "GetForRef (externals_fragment empty_IndexFile Map.empty) [''stable''] registry_stable ''stable/mychart''
     = (''stable'', registry_stable)"
    using GetForRef_splits_on_last_separator
            [of "''stable/mychart''" "externals_fragment empty_IndexFile Map.empty" "[''stable'']"
                registry_stable,
             THEN conjunct2, THEN conjunct2, rule_format, of "''stable''" "''mychart''"]
    by (simp add: registry_defs)
  show "GetForRef (externals_fragment empty_IndexFile Map.empty) [''stable''] registry_stable ''mychart''
     = ([], registry_stable)"
    using GetForRef_splits_on_last_separator
            [of "''mychart''" "externals_fragment empty_IndexFile Map.empty" "[''stable'']"
                registry_stable, THEN conjunct1]
    by simp
  show "GetForRef (externals_fragment empty_IndexFile Map.empty) [''stable''] registry_stable ''/mychart''
     = ([], registry_stable)"
    using GetForRef_splits_on_last_separator
            [of "''/mychart''" "externals_fragment empty_IndexFile Map.empty" "[''stable'']"
                registry_stable,
             THEN conjunct2, THEN conjunct1, rule_format, of "''mychart''"]
    by simp
qed

text \<open>
  What the calls do to the two tables: resolving a URL leaves the indices alone and only
  adds entries; \<^verbatim>\<open>GetIndex\<close> leaves the entries alone and only adds an index under a name
  that has an entry.
\<close>

lemma getInfoByURL_tables:
  assumes "getInfoByURL ext ks c url = (entry, c')"
  shows "indices c' = indices c \<and> indexPath c' = indexPath c
         \<and> (\<forall>name. getInfo c name \<noteq> None \<longrightarrow> getInfo c' name \<noteq> None)"
  using assms
  by (auto simp: getInfoByURL_def getInfo_def Let_def split: option.splits sum.splits)

lemma CanonicalizeRepoName_tables:
  assumes "CanonicalizeRepoName ext ks c name = (canonical, c')"
  shows "indices c' = indices c \<and> indexPath c' = indexPath c
         \<and> (\<forall>name. getInfo c name \<noteq> None \<longrightarrow> getInfo c' name \<noteq> None)"
proof (cases "getInfoByURL ext ks c name")
  case (Pair entry c'')
  from getInfoByURL_tables [OF Pair] Pair assms show ?thesis
    by (auto simp: CanonicalizeRepoName_def split: if_splits option.splits)
qed

lemma GetForRef_tables:
  assumes "GetForRef ext ks c ref = (canonical, c')"
  shows "indices c' = indices c \<and> indexPath c' = indexPath c
         \<and> (\<forall>name. getInfo c name \<noteq> None \<longrightarrow> getInfo c' name \<noteq> None)"
proof (cases "0 < LastIndex ref ''/''")
  case True
  with assms have "CanonicalizeRepoName ext ks c (take (nat (LastIndex ref ''/'')) ref) = (canonical, c')"
    by (simp add: GetForRef_def Let_def)
  then show ?thesis by (rule CanonicalizeRepoName_tables)
next
  case False
  with assms have "c' = c" by (simp add: GetForRef_def Let_def)
  then show ?thesis by simp
qed

lemma GetIndex_tables:
  assumes "GetIndex ext ks ks' c name = Returns (r, err, c')"
  shows "(\<forall>n. getInfo c' n = getInfo c n) \<and> indexPath c' = indexPath c
         \<and> (\<forall>n. indices c' n \<noteq> None \<longrightarrow> indices c n \<noteq> None \<or> getInfo c n \<noteq> None)"
  using assms
  by (auto simp: GetIndex_def getInfo_def split: if_splits option.splits outcome.splits sum.splits)

lemma NewChartRepositories_indices:
  assumes "NewChartRepositories ext repoConfigPath repoCachePath = Returns (Inr c)"
  shows "indices c = Map.empty"
  using assms
  by (auto simp: NewChartRepositories_def split: sum.splits outcome.splits)

text \<open>In a registry that a program can hold, every name with a loaded index has an entry.\<close>

lemma reachable_indices:
  assumes "reachable ext c"
  shows "\<forall>name. indices c name \<noteq> None \<longrightarrow> getInfo c name \<noteq> None"
  using assms
proof (induction rule: reachable.induct)
  case (new repoConfigPath repoCachePath c)
  then show ?case by (simp add: NewChartRepositories_indices)
next
  case (get_index c ks ks' name r err c')
  from GetIndex_tables [OF get_index.hyps(2)] get_index.IH show ?case
    by metis
next
  case (by_url c ks url entry c')
  from by_url.hyps(2) have "getInfoByURL ext ks c url = (entry, c')"
    by (simp add: GetInfoByURL_def)
  from getInfoByURL_tables [OF this] by_url.IH show ?case
    by metis
next
  case (canonicalize c ks name canonical c')
  from CanonicalizeRepoName_tables [OF canonicalize.hyps(2)] canonicalize.IH show ?case
    by metis
next
  case (for_ref c ks ref canonical c')
  from GetForRef_tables [OF for_ref.hyps(2)] for_ref.IH show ?case
    by metis
qed

lemma reachable_registry_stable:
  "reachable (externals_fragment decoded files) registry_stable"
proof -
  have "NewChartRepositories (externals_fragment decoded files) ''repositories.yaml'' ''/cache''
          = Returns (Inr registry_stable)"
    by (simp add: NewChartRepositories_def externals_fragment_def registry_stable_def)
  then show ?thesis by (rule reachable.new)
qed

text \<open>
  Claim C8. In a registry that a program can hold, \<^verbatim>\<open>GetIndex\<close> returns no index and no
  error for the blank name and for every name that has no entry, and leaves the registry as
  it is; and whenever it returns an error, the name has an entry, \<^verbatim>\<open>LoadIndexFile\<close> has
  returned that error for the cached index file of the entry, and no index comes with it.
\<close>

theorem GetIndex_soft_fail:
  assumes "reachable ext c"
  shows "(name = [] \<or> repos c name = None \<longrightarrow> GetIndex ext ks ks' c name = Returns (None, None, c))
         \<and> (\<forall>r err c'. GetIndex ext ks ks' c name = Returns (r, Some err, c') \<longrightarrow>
               r = None \<and> c' = c
               \<and> (\<exists>e. name \<noteq> [] \<and> repos c name = Some e
                      \<and> LoadIndexFile ext ks ks' (cache_index_path ext (indexPath c) (Entry_Name e))
                          = Returns (Inl err)))"
proof (rule conjI)
  show "name = [] \<or> repos c name = None \<longrightarrow> GetIndex ext ks ks' c name = Returns (None, None, c)"
  proof (rule impI)
    assume "name = [] \<or> repos c name = None"
    then have unknown: "getInfo c name = None" by (auto simp: getInfo_def)
    with reachable_indices [OF assms] have "indices c name = None" by auto
    with unknown show "GetIndex ext ks ks' c name = Returns (None, None, c)"
      by (simp add: GetIndex_def)
  qed
  show "\<forall>r err c'. GetIndex ext ks ks' c name = Returns (r, Some err, c') \<longrightarrow>
          r = None \<and> c' = c
          \<and> (\<exists>e. name \<noteq> [] \<and> repos c name = Some e
                 \<and> LoadIndexFile ext ks ks' (cache_index_path ext (indexPath c) (Entry_Name e))
                     = Returns (Inl err))"
    by (auto simp: GetIndex_def getInfo_def
             split: if_splits option.splits outcome.splits sum.splits)
qed

text \<open>
  The theorem at the registry with the repository \<^verbatim>\<open>stable\<close> and an empty cache directory:
  the blank name and the name \<^verbatim>\<open>unknown\<close> give no index and no error, and the error that
  \<^verbatim>\<open>GetIndex\<close> returns for \<^verbatim>\<open>stable\<close> is the one of reading its cached index file.
\<close>

theorem GetIndex_soft_fail_witness:
  "GetIndex (externals_fragment empty_IndexFile Map.empty) [] [] registry_stable []
     = Returns (None, None, registry_stable)
   \<and> GetIndex (externals_fragment empty_IndexFile Map.empty) [] [] registry_stable ''unknown''
     = Returns (None, None, registry_stable)
   \<and> GetIndex (externals_fragment empty_IndexFile Map.empty) [] [] registry_stable ''stable''
     = Returns (None, Some (ReadFileError ''/cache/stable-index.yaml''), registry_stable)
   \<and> LoadIndexFile (externals_fragment empty_IndexFile Map.empty) [] [] ''/cache/stable-index.yaml''
     = Returns (Inl (ReadFileError ''/cache/stable-index.yaml''))"
proof -
  let ?ext = "externals_fragment empty_IndexFile Map.empty"
  have run: "GetIndex ?ext [] [] registry_stable ''stable''
     = Returns (None, Some (ReadFileError ''/cache/stable-index.yaml''), registry_stable)"
    by (simp add: GetIndex_def getInfo_def LoadIndexFile_def externals_fragment_def registry_stable_def)
  note t = GetIndex_soft_fail [OF reachable_registry_stable, of _ empty_IndexFile Map.empty "[]" "[]"]
  from t [of "[]"] have a: "GetIndex ?ext [] [] registry_stable [] = Returns (None, None, registry_stable)"
    by simp
  from t [of "''unknown''"]
  have b: "GetIndex ?ext [] [] registry_stable ''unknown'' = Returns (None, None, registry_stable)"
    by (simp add: registry_stable_def)
  from t [of "''stable''", THEN conjunct2, rule_format, OF run]
  have c: "LoadIndexFile ?ext [] [] ''/cache/stable-index.yaml''
     = Returns (Inl (ReadFileError ''/cache/stable-index.yaml''))"
    by (simp add: registry_stable_def externals_fragment_def)
  from a b run c show ?thesis by simp
qed

text \<open>Resolving a URL: the first call registers the synthetic entry, the second finds it.\<close>

lemma find_only:
  assumes "x \<in> set xs" and "P x" and "\<forall>y\<in>set xs. P y \<longrightarrow> y = x"
  shows "find P xs = Some x"
  using assms
proof (induction xs)
  case Nil
  then show ?case by simp
next
  case (Cons a xs)
  show ?case
  proof (cases "P a")
    case True
    with Cons.prems(3) have "a = x" by simp
    with True show ?thesis by simp
  next
    case False
    with Cons.prems(1,2) have "x \<in> set xs" by auto
    moreover from Cons.prems(3) have "\<forall>y\<in>set xs. P y \<longrightarrow> y = x" by simp
    ultimately have "find P xs = Some x"
      using Cons.prems(2) by (intro Cons.IH)
    with False show ?thesis by simp
  qed
qed

lemma getInfoByF_none:
  assumes "\<forall>e\<in>ran (repos c). \<not> f e"
  shows "getInfoByF ks c f = None"
proof -
  have "\<not> (case repos c k of None \<Rightarrow> False | Some entry \<Rightarrow> f entry)" for k
    using assms by (auto simp: ran_def split: option.splits)
  then have "find (\<lambda>k. case repos c k of None \<Rightarrow> False | Some entry \<Rightarrow> f entry) ks = None"
    by (simp add: find_None_iff)
  then show ?thesis by (simp add: getInfoByF_def)
qed

lemma getInfoByURL_registers:
  assumes "\<forall>e\<in>ran (repos c). \<not> urlutil_Equal ext (Entry_URL e) url"
    and "key ext url = Inr k"
  shows "getInfoByURL ext ks c url
         = (Some \<lparr>Entry_Name = managerKeyPrefix ext @ k, Entry_URL = url\<rparr>,
            c\<lparr>repos := (repos c)(managerKeyPrefix ext @ k \<mapsto>
                 \<lparr>Entry_Name = managerKeyPrefix ext @ k, Entry_URL = url\<rparr>)\<rparr>)"
  using getInfoByF_none [OF assms(1)] assms(2)
  by (simp add: getInfoByURL_def Let_def)

lemma getInfoByURL_finds_registered:
  assumes "\<forall>e\<in>ran (repos c). \<not> urlutil_Equal ext (Entry_URL e) url"
    and "urlutil_Equal ext url url"
    and "g \<in> set ks"
  shows "getInfoByURL ext ks (c\<lparr>repos := (repos c)(g \<mapsto> \<lparr>Entry_Name = g, Entry_URL = url\<rparr>)\<rparr>) url
         = (Some \<lparr>Entry_Name = g, Entry_URL = url\<rparr>,
            c\<lparr>repos := (repos c)(g \<mapsto> \<lparr>Entry_Name = g, Entry_URL = url\<rparr>)\<rparr>)"
proof -
  let ?c = "c\<lparr>repos := (repos c)(g \<mapsto> \<lparr>Entry_Name = g, Entry_URL = url\<rparr>)\<rparr>"
  let ?P = "\<lambda>k. case repos ?c k of None \<Rightarrow> False
                 | Some entry \<Rightarrow> urlutil_Equal ext (Entry_URL entry) url"
  from assms(2) have "?P g" by simp
  moreover have "\<forall>y\<in>set ks. ?P y \<longrightarrow> y = g"
  proof (intro ballI impI)
    fix y
    assume y: "?P y"
    show "y = g"
    proof (rule ccontr)
      assume "y \<noteq> g"
      then have "repos ?c y = repos c y" by simp
      with y obtain e where e: "repos c y = Some e" and eq: "urlutil_Equal ext (Entry_URL e) url"
        by (cases "repos c y") auto
      from e have "e \<in> ran (repos c)" by (rule ranI)
      with assms(1) eq show False by simp
    qed
  qed
  ultimately have "find ?P ks = Some g"
    using assms(3) by (intro find_only) 
  then show ?thesis by (simp add: getInfoByURL_def getInfoByF_def)
qed

text \<open>
  Claim C7. A URL that no registered entry compares equal to is resolved twice, the hash of
  the URL being \<open>k\<close> and the URL comparing equal to itself. When no entry is registered
  under the synthetic name (the prefix followed by \<open>k\<close>) and the second call visits the
  names of the table that the first call leaves, both calls of \<^verbatim>\<open>GetInfoByURL\<close> return the
  synthetic entry, the second call leaves the registry as it is, and the table has one entry
  more than before the two calls; and when the URL is one that \<^verbatim>\<open>CanonicalizeRepoName\<close>
  resolves by URL, both calls of \<^verbatim>\<open>CanonicalizeRepoName\<close> return the synthetic name.
\<close>

theorem GetInfoByURL_twice:
  assumes "\<forall>e\<in>ran (repos c). \<not> urlutil_Equal ext (Entry_URL e) url"
    and "key ext url = Inr k"
    and "urlutil_Equal ext url url"
    and "repos c (managerKeyPrefix ext @ k) = None"
    and "set ks' = insert (managerKeyPrefix ext @ k) (dom (repos c))"
  shows "\<exists>c'. GetInfoByURL ext ks c url
                = (Some \<lparr>Entry_Name = managerKeyPrefix ext @ k, Entry_URL = url\<rparr>, c')
            \<and> GetInfoByURL ext ks' c' url
                = (Some \<lparr>Entry_Name = managerKeyPrefix ext @ k, Entry_URL = url\<rparr>, c')
            \<and> card (dom (repos c')) = card (dom (repos c)) + 1
            \<and> (url \<noteq> [] \<and> \<not> HasPrefix url ''file://'' \<and> \<not> registry_IsOCI ext url
                 \<and> getInfo c (TrimPrefix url ''@'') = None
                 \<and> getInfo c (TrimPrefix url ''alias:'') = None
                 \<and> url_IsAbs ext url \<longrightarrow>
                 CanonicalizeRepoName ext ks c url = (managerKeyPrefix ext @ k, c')
                 \<and> CanonicalizeRepoName ext ks' c' url = (managerKeyPrefix ext @ k, c'))"
proof -
  let ?g = "managerKeyPrefix ext @ k"
  let ?e = "\<lparr>Entry_Name = ?g, Entry_URL = url\<rparr>"
  let ?c = "c\<lparr>repos := (repos c)(?g \<mapsto> ?e)\<rparr>"
  have first: "getInfoByURL ext ks c url = (Some ?e, ?c)"
    using assms(1,2) by (rule getInfoByURL_registers)
  from assms(5) have "?g \<in> set ks'" by simp
  with assms(1,3) have second: "getInfoByURL ext ks' ?c url = (Some ?e, ?c)"
    by (rule getInfoByURL_finds_registered)
  have "finite (set ks')" by simp
  with assms(5) have "finite (insert ?g (dom (repos c)))" by simp
  then have "finite (dom (repos c))" by simp
  moreover from assms(4) have "?g \<notin> dom (repos c)" by (simp add: domIff)
  ultimately have size: "card (dom (repos ?c)) = card (dom (repos c)) + 1"
    by simp
  have canonical: "CanonicalizeRepoName ext ks c url = (?g, ?c)
                   \<and> CanonicalizeRepoName ext ks' ?c url = (?g, ?c)"
    if by_url: "url \<noteq> [] \<and> \<not> HasPrefix url ''file://'' \<and> \<not> registry_IsOCI ext url
                \<and> getInfo c (TrimPrefix url ''@'') = None
                \<and> getInfo c (TrimPrefix url ''alias:'') = None
                \<and> url_IsAbs ext url"
  proof
    from by_url first show "CanonicalizeRepoName ext ks c url = (?g, ?c)"
      by (simp add: CanonicalizeRepoName_def)
    have trimmed: "getInfo ?c t = None \<or> t = ?g" if "getInfo c t = None" for t
      using that by (auto simp: getInfo_def split: if_splits)
    from by_url trimmed [of "TrimPrefix url ''@''"] trimmed [of "TrimPrefix url ''alias:''"] second
    show "CanonicalizeRepoName ext ks' ?c url = (?g, ?c)"
      by (auto simp: CanonicalizeRepoName_def)
  qed
  from first have a: "GetInfoByURL ext ks c url = (Some ?e, ?c)"
    by (simp only: GetInfoByURL_def)
  from second have b: "GetInfoByURL ext ks' ?c url = (Some ?e, ?c)"
    by (simp only: GetInfoByURL_def)
  have d: "url \<noteq> [] \<and> \<not> HasPrefix url ''file://'' \<and> \<not> registry_IsOCI ext url
             \<and> getInfo c (TrimPrefix url ''@'') = None
             \<and> getInfo c (TrimPrefix url ''alias:'') = None
             \<and> url_IsAbs ext url \<longrightarrow>
           CanonicalizeRepoName ext ks c url = (?g, ?c)
           \<and> CanonicalizeRepoName ext ks' ?c url = (?g, ?c)"
    by (rule impI) (rule canonical)
  show ?thesis
    by (rule exI [of _ ?c], intro conjI a b size d)
qed

text \<open>
  The theorem at the registry with the repository \<^verbatim>\<open>stable\<close> and the address
  \<^verbatim>\<open>https://example.com/charts\<close>: both calls return the synthetic entry, and the table goes
  from one entry to two.
\<close>

theorem GetInfoByURL_twice_witness:
  "\<exists>c'. GetInfoByURL (externals_fragment empty_IndexFile Map.empty) [''stable''] registry_stable ''https://example.com/charts''
          = (Some \<lparr>Entry_Name = ''helm-manager-https://example.com/charts'', Entry_URL = ''https://example.com/charts''\<rparr>, c')
        \<and> GetInfoByURL (externals_fragment empty_IndexFile Map.empty)
            [''helm-manager-https://example.com/charts'', ''stable''] c' ''https://example.com/charts''
          = (Some \<lparr>Entry_Name = ''helm-manager-https://example.com/charts'', Entry_URL = ''https://example.com/charts''\<rparr>, c')
        \<and> card (dom (repos c')) = card (dom (repos registry_stable)) + 1
        \<and> card (dom (repos registry_stable)) = 1
        \<and> CanonicalizeRepoName (externals_fragment empty_IndexFile Map.empty) [''stable''] registry_stable ''https://example.com/charts''
          = (''helm-manager-https://example.com/charts'', c')
        \<and> CanonicalizeRepoName (externals_fragment empty_IndexFile Map.empty)
            [''helm-manager-https://example.com/charts'', ''stable''] c' ''https://example.com/charts''
          = (''helm-manager-https://example.com/charts'', c')"
proof -
  let ?ext = "externals_fragment empty_IndexFile Map.empty"
  let ?url = "''https://example.com/charts''"
  let ?name = "''helm-manager-https://example.com/charts''"
  have h1: "\<forall>e\<in>ran (repos registry_stable). \<not> urlutil_Equal ?ext (Entry_URL e) ?url"
    by (simp add: registry_stable_def externals_fragment_def)
  have h2: "key ?ext ?url = Inr ?url"
    by (simp add: externals_fragment_def)
  have h3: "urlutil_Equal ?ext ?url ?url"
    by (simp add: externals_fragment_def)
  have g: "managerKeyPrefix ?ext @ ?url = ?name"
    by (simp add: externals_fragment_def)
  have h4: "repos registry_stable (managerKeyPrefix ?ext @ ?url) = None"
    by (simp add: registry_stable_def externals_fragment_def)
  have h5: "set [?name, ''stable'']
            = insert (managerKeyPrefix ?ext @ ?url) (dom (repos registry_stable))"
    by (simp add: registry_stable_def externals_fragment_def)
  have by_url: "?url \<noteq> [] \<and> \<not> HasPrefix ?url ''file://'' \<and> \<not> registry_IsOCI ?ext ?url
                \<and> getInfo registry_stable (TrimPrefix ?url ''@'') = None
                \<and> getInfo registry_stable (TrimPrefix ?url ''alias:'') = None
                \<and> url_IsAbs ?ext ?url"
    by (simp add: registry_defs)
  have size: "card (dom (repos registry_stable)) = 1"
    by (simp add: registry_stable_def)
  from GetInfoByURL_twice [OF h1 h2 h3 h4 h5, of "[''stable'']"] show ?thesis
    by (simp only: g size by_url simp_thms)
qed

text \<open>
  An entry that is registered under the synthetic name of the address, with another
  address, is replaced by the first call: no entry compares equal to the address, the two
  calls return the synthetic entry, and the table has one entry before and after.
\<close>

theorem GetInfoByURL_replaces_entry_counterexample:
  "getInfoByF [''helm-manager-https://example.com/charts''] registry_taken
     (\<lambda>entry. urlutil_Equal (externals_fragment empty_IndexFile Map.empty) (Entry_URL entry) ''https://example.com/charts'')
     = None
   \<and> GetInfoByURL (externals_fragment empty_IndexFile Map.empty) [''helm-manager-https://example.com/charts''] registry_taken ''https://example.com/charts''
     = (Some \<lparr>Entry_Name = ''helm-manager-https://example.com/charts'', Entry_URL = ''https://example.com/charts''\<rparr>,
        registry_taken\<lparr>repos := [''helm-manager-https://example.com/charts'' \<mapsto> \<lparr>Entry_Name = ''helm-manager-https://example.com/charts'', Entry_URL = ''https://example.com/charts''\<rparr>]\<rparr>)
   \<and> GetInfoByURL (externals_fragment empty_IndexFile Map.empty) [''helm-manager-https://example.com/charts'']
       (registry_taken\<lparr>repos := [''helm-manager-https://example.com/charts'' \<mapsto> \<lparr>Entry_Name = ''helm-manager-https://example.com/charts'', Entry_URL = ''https://example.com/charts''\<rparr>]\<rparr>)
       ''https://example.com/charts''
     = (Some \<lparr>Entry_Name = ''helm-manager-https://example.com/charts'', Entry_URL = ''https://example.com/charts''\<rparr>,
        registry_taken\<lparr>repos := [''helm-manager-https://example.com/charts'' \<mapsto> \<lparr>Entry_Name = ''helm-manager-https://example.com/charts'', Entry_URL = ''https://example.com/charts''\<rparr>]\<rparr>)
   \<and> card (dom (repos registry_taken)) = 1
   \<and> card (dom (repos (registry_taken\<lparr>repos := [''helm-manager-https://example.com/charts'' \<mapsto> \<lparr>Entry_Name = ''helm-manager-https://example.com/charts'', Entry_URL = ''https://example.com/charts''\<rparr>]\<rparr>))) = 1"
  by (simp add: registry_defs Let_def)

end
